theory Spec2Isabelle
  imports Complex_Main "HOL-Library.Word" "HOL-Library.Signed_Division"
begin

section \<open>Data model of the Monopoly environment\<close>

text \<open>
  The C \<^verbatim>\<open>int\<close> is modelled as the unbounded \<^typ>\<open>int\<close>: the development describes the
  executions in which no signed addition overflows (an overflow is undefined behaviour in C).
  The C operators \<^verbatim>\<open>/\<close> and \<^verbatim>\<open>%\<close> truncate towards zero; they are written
  \<open>sdiv\<close> and \<open>smod\<close>. An array is a list read with \<open>xs ! nat i\<close> and written with
  \<open>xs[nat i := v]\<close>. The text fields of the source (square names, log descriptions) carry
  no control flow and are left out, except the name of the drawn card, which the
  GoToJail square compares.\<close>

definition BOARD_SIZE :: int where "BOARD_SIZE = 40"
definition MAX_PLAYERS :: int where "MAX_PLAYERS = 8"
definition MAX_EPISODE_STEPS :: nat where "MAX_EPISODE_STEPS = 500"
definition Q_TABLE_INITIAL_SIZE :: int where "Q_TABLE_INITIAL_SIZE = 1024"
definition VISITED_SET_INITIAL_SIZE :: int where "VISITED_SET_INITIAL_SIZE = 256"

text \<open>The value of the C library's \<^verbatim>\<open>RAND_MAX\<close> on the platform of the repository (glibc).\<close>

definition RAND_MAX :: nat where "RAND_MAX = 2147483647"

text \<open>The six card effect functions the decks point to.\<close>

datatype CardEffectFunc =
  card_advance_to_go | card_go_to_jail | card_bank_dividend
  | card_pay_poor_tax | card_doctors_fee | card_tax_refund

record Card =
  card_name :: string
  effect :: CardEffectFunc

record Property =
  price :: int
  rent :: int
  owner :: int
  houses :: int
  house_cost :: int

record LogEntry =
  log_step :: int
  log_player :: int
  position_before :: int
  dice_roll :: int
  landed_on_position :: int
  position_after :: int
  money_before :: int
  money_after :: int
  log_reward :: int
  log_done :: bool
  log_in_jail :: bool
  fee_paid :: int
  agent_action :: int
  num_owned_properties :: int
  log_card_drawn :: string
  episode_id :: int

record MonopolyEnv =
  go_reward :: int
  start_money :: int
  board_size :: int
  jail_position :: int
  go_to_jail_position :: int
  jail_turns :: int
  num_players :: int
  positions :: "int list"
  money :: "int list"
  in_jail :: "bool list"
  jail_counters :: "int list"
  properties :: "Property list"
  current_player :: int
  steps_taken :: int
  env_done :: bool
  chance_deck :: "Card list"
  chance_deck_size :: int
  chest_deck :: "Card list"
  chest_deck_size :: int
  obs_money_high :: int
  last_log :: LogEntry

text \<open>
  The reward is a \<^verbatim>\<open>double\<close> in the source. Every value it takes in the step function is a
  sum of C ints and of the constants 100, 50 and 1000, which a double represents exactly
  (below \<open>2^53\<close>), so it is an \<^typ>\<open>int\<close> here.\<close>

record StepResult =
  res_reward :: int
  res_done :: bool
  res_log :: LogEntry

text \<open>
  The C library's \<^verbatim>\<open>rand()\<close>: the generator state is the sequence of the values still to
  be returned; a call returns the first and leaves the rest.\<close>

type_synonym rng = "nat \<Rightarrow> nat"

definition rand :: "rng \<Rightarrow> nat \<times> rng" where
  "rand g = (g 0, \<lambda>n. g (Suc n))"

section \<open>Helper functions\<close>

definition get_fee_for_position :: "int \<Rightarrow> int" where
  "get_fee_for_position position =
     (if position = 4 then 200 else if position = 38 then 100 else 0)"

definition is_chance_position :: "int \<Rightarrow> bool" where
  "is_chance_position position \<longleftrightarrow> position = 7 \<or> position = 22 \<or> position = 36"

definition is_chest_position :: "int \<Rightarrow> bool" where
  "is_chest_position position \<longleftrightarrow> position = 2 \<or> position = 17 \<or> position = 33"

text \<open>A card effect returns the changed environment and the reward of the card.\<close>

definition adjust_money :: "MonopolyEnv \<Rightarrow> int \<Rightarrow> int \<Rightarrow> MonopolyEnv \<times> int" where
  "adjust_money env player amount =
     (env\<lparr>money := (money env)[nat player := money env ! nat player + amount]\<rparr>, amount)"

definition advance_to_go :: "MonopolyEnv \<Rightarrow> int \<Rightarrow> MonopolyEnv \<times> int" where
  "advance_to_go env player =
     (let passed_go = (positions env ! nat player \<noteq> 0);
          env1 = env\<lparr>positions := (positions env)[nat player := 0]\<rparr>
      in if passed_go
         then (env1\<lparr>money := (money env1)[nat player := money env1 ! nat player + go_reward env1]\<rparr>,
               go_reward env1)
         else (env1, 0))"

definition go_to_jail :: "MonopolyEnv \<Rightarrow> int \<Rightarrow> MonopolyEnv \<times> int" where
  "go_to_jail env player =
     (env\<lparr>positions := (positions env)[nat player := jail_position env],
          in_jail := (in_jail env)[nat player := True],
          jail_counters := (jail_counters env)[nat player := 0]\<rparr>, 0)"

fun apply_effect :: "CardEffectFunc \<Rightarrow> MonopolyEnv \<Rightarrow> int \<Rightarrow> MonopolyEnv \<times> int" where
  "apply_effect card_advance_to_go env player = advance_to_go env player"
| "apply_effect card_go_to_jail env player = go_to_jail env player"
| "apply_effect card_bank_dividend env player = adjust_money env player 50"
| "apply_effect card_pay_poor_tax env player = adjust_money env player (- 15)"
| "apply_effect card_doctors_fee env player = adjust_money env player (- 50)"
| "apply_effect card_tax_refund env player = adjust_money env player 20"

section \<open>Construction and reset\<close>

definition non_property :: Property where
  "non_property = \<lparr>price = 0, rent = 0, owner = - 1, houses = 0, house_cost = 0\<rparr>"

definition mk_property :: "int \<Rightarrow> int \<Rightarrow> int \<Rightarrow> Property" where
  "mk_property pr r hc = \<lparr>price = pr, rent = r, owner = - 1, houses = 0, house_cost = hc\<rparr>"

definition initialize_properties :: "Property list" where
  "initialize_properties =
     [non_property, mk_property 60 2 50, non_property, mk_property 60 4 50, non_property,
      mk_property 200 25 100, mk_property 100 6 50, non_property, mk_property 100 6 50,
      mk_property 120 8 50,
      non_property, mk_property 140 10 100, mk_property 150 10 75, mk_property 140 10 100,
      mk_property 160 12 100, mk_property 200 25 100, mk_property 180 14 100, non_property,
      mk_property 180 14 100, mk_property 200 16 100,
      non_property, mk_property 220 18 150, non_property, mk_property 220 18 150,
      mk_property 240 20 150, mk_property 200 25 100, mk_property 260 22 150,
      mk_property 260 22 150, mk_property 150 10 75, mk_property 280 24 150,
      non_property, mk_property 300 26 200, mk_property 300 26 200, non_property,
      mk_property 320 28 200, mk_property 200 25 100, non_property, mk_property 350 35 200,
      non_property, mk_property 400 50 200]"

definition initial_chance_deck :: "Card list" where
  "initial_chance_deck =
     [\<lparr>card_name = ''Advance to Go'', effect = card_advance_to_go\<rparr>,
      \<lparr>card_name = ''Go to Jail'', effect = card_go_to_jail\<rparr>,
      \<lparr>card_name = ''Bank pays you dividend'', effect = card_bank_dividend\<rparr>,
      \<lparr>card_name = ''Pay poor tax'', effect = card_pay_poor_tax\<rparr>]"

definition initial_chest_deck :: "Card list" where
  "initial_chest_deck =
     [\<lparr>card_name = ''Doctor's fee'', effect = card_doctors_fee\<rparr>,
      \<lparr>card_name = ''Income tax refund'', effect = card_tax_refund\<rparr>,
      \<lparr>card_name = ''Go to Jail'', effect = card_go_to_jail\<rparr>,
      \<lparr>card_name = ''Advance to Go'', effect = card_advance_to_go\<rparr>]"

definition zero_log :: LogEntry where
  "zero_log = \<lparr>log_step = 0, log_player = 0, position_before = 0, dice_roll = 0,
     landed_on_position = 0, position_after = 0, money_before = 0, money_after = 0,
     log_reward = 0, log_done = False, log_in_jail = False, fee_paid = 0, agent_action = 0,
     num_owned_properties = 0, log_card_drawn = [], episode_id = 0\<rparr>"

text \<open>
  The observation the caller's buffer receives: positions, money clamped from above, jail
  flags, owners, current player.\<close>

definition get_observation :: "MonopolyEnv \<Rightarrow> int list" where
  "get_observation env =
     (let np = nat (num_players env) in
      map (\<lambda>i. positions env ! i) [0..<np]
      @ map (\<lambda>i. if money env ! i > obs_money_high env then obs_money_high env
                   else money env ! i) [0..<np]
      @ map (\<lambda>i. if in_jail env ! i then 1 else 0) [0..<np]
      @ map (\<lambda>i. owner (properties env ! i)) [0..<nat (board_size env)]
      @ [current_player env])"

text \<open>
  \<^verbatim>\<open>create_monopoly_env\<close> returns \<^verbatim>\<open>NULL\<close> (here \<open>None\<close>) when the player count is
  refused. The allocation of the environment is taken to succeed.\<close>

definition create_monopoly_env :: "int \<Rightarrow> int \<Rightarrow> int \<Rightarrow> MonopolyEnv option" where
  "create_monopoly_env n_players start_m go_r =
     (if n_players \<le> 0 \<or> n_players > MAX_PLAYERS then None
      else Some \<lparr>go_reward = go_r, start_money = start_m, board_size = BOARD_SIZE,
        jail_position = 10, go_to_jail_position = 30, jail_turns = 3,
        num_players = n_players,
        positions = replicate (nat n_players) 0
                    @ replicate (nat MAX_PLAYERS - nat n_players) (- 1),
        money = replicate (nat n_players) start_m
                @ replicate (nat MAX_PLAYERS - nat n_players) 0,
        in_jail = replicate (nat MAX_PLAYERS) False,
        jail_counters = replicate (nat MAX_PLAYERS) 0,
        properties = initialize_properties,
        current_player = 0, steps_taken = 0, env_done = False,
        chance_deck = initial_chance_deck, chance_deck_size = 4,
        chest_deck = initial_chest_deck, chest_deck_size = 4,
        obs_money_high = start_m * 10,
        last_log = zero_log\<rparr>)"

definition reset_properties :: "MonopolyEnv \<Rightarrow> MonopolyEnv" where
  "reset_properties env =
     fold (\<lambda>i e. e\<lparr>properties := (properties e)[i := (properties e ! i)\<lparr>owner := - 1, houses := 0\<rparr>]\<rparr>)
       [0..<nat (board_size env)] env"

definition reset_players :: "MonopolyEnv \<Rightarrow> MonopolyEnv" where
  "reset_players env =
     fold (\<lambda>i e. e\<lparr>positions := (positions e)[i := 0],
                    money := (money e)[i := start_money e],
                    in_jail := (in_jail e)[i := False],
                    jail_counters := (jail_counters e)[i := 0]\<rparr>)
       [0..<nat (num_players env)] env"

definition reset_monopoly_env :: "MonopolyEnv \<Rightarrow> MonopolyEnv \<times> int list" where
  "reset_monopoly_env env =
     (let env1 = (reset_players (reset_properties env))
            \<lparr>current_player := 0, steps_taken := 0, env_done := False, last_log := zero_log\<rparr>
      in (env1, get_observation env1))"

definition next_player :: "MonopolyEnv \<Rightarrow> MonopolyEnv" where
  "next_player env = env\<lparr>current_player := (current_player env + 1) smod num_players env\<rparr>"

definition count_owned :: "MonopolyEnv \<Rightarrow> int \<Rightarrow> int" where
  "count_owned env player =
     int (length (filter (\<lambda>i. owner (properties env ! i) = player) [0..<nat (board_size env)]))"

definition create_log_entry ::
  "MonopolyEnv \<Rightarrow> int \<Rightarrow> int \<Rightarrow> int \<Rightarrow> int \<Rightarrow> int \<Rightarrow> int \<Rightarrow> int \<Rightarrow> int \<Rightarrow> int \<Rightarrow> int \<Rightarrow> string
     \<Rightarrow> LogEntry" where
  "create_log_entry env player pos_before dice landed_on pos_after m_before m_after
       rew fee action_taken card_nm =
     \<lparr>log_step = steps_taken env, log_player = player, position_before = pos_before,
      dice_roll = dice, landed_on_position = landed_on, position_after = pos_after,
      money_before = m_before, money_after = m_after, log_reward = rew,
      log_done = env_done env, log_in_jail = in_jail env ! nat player, fee_paid = fee,
      agent_action = action_taken, num_owned_properties = count_owned env player,
      log_card_drawn = card_nm, episode_id = 0\<rparr>"

section \<open>The step function\<close>

text \<open>
  The repository holds two copies of \<^verbatim>\<open>step_monopoly_env\<close>: the one of the sequential
  program and the host copy in the parallelised file. They are the same text except in three
  places: the host copy of the parallelised file does not add the card's reward to the
  reward accumulator, gives no purchase bonus, and does not store the log entry in the
  environment. The model takes the copy as a parameter.\<close>

datatype source_file = Sequential | Parallelized

text \<open>The switch that computes the rent due from the base rent and the house count.\<close>

definition rent_due :: "int \<Rightarrow> int \<Rightarrow> int" where
  "rent_due prop_rent prop_houses =
     (if prop_houses > 0 then
        (if prop_houses = 1 then prop_rent * 5
         else if prop_houses = 2 then prop_rent * 15
         else if prop_houses = 3 then prop_rent * 45
         else if prop_houses = 4 then prop_rent * 80
         else if prop_houses = 5 then prop_rent * 125
         else prop_rent * (prop_houses + 1))
      else prop_rent)"

text \<open>The loop that forfeits every property of player \<open>p\<close> (owner none, no houses).\<close>

definition forfeit_properties :: "MonopolyEnv \<Rightarrow> int \<Rightarrow> MonopolyEnv" where
  "forfeit_properties env p =
     fold (\<lambda>i e. if owner (properties e ! i) = p
                  then e\<lparr>properties := (properties e)[i := (properties e ! i)\<lparr>owner := - 1, houses := 0\<rparr>]\<rparr>
                  else e)
       [0..<nat (board_size env)] env"

text \<open>
  The turn of a player who stays in jail (no doubles, turn limit not reached). The jail
  counter is already incremented and both dice are already rolled.\<close>

definition jail_turn_ends ::
  "source_file \<Rightarrow> MonopolyEnv \<Rightarrow> int \<Rightarrow> int \<Rightarrow> int \<Rightarrow> int \<Rightarrow> rng
     \<Rightarrow> MonopolyEnv \<times> StepResult \<times> int list \<times> rng" where
  "jail_turn_ends v env p action prev_position money_before_turn g =
     (let env1 = env\<lparr>steps_taken := steps_taken env + 1\<rparr>;
          (env2, reward) =
             (if money env1 ! nat p < 0 \<and> \<not> env_done env1
              then (forfeit_properties (env1\<lparr>env_done := True\<rparr>) p, 0 + (0 - 1000))
              else (env1, 0));
          entry = create_log_entry env2 p prev_position 0 prev_position (positions env2 ! nat p)
                    money_before_turn (money env2 ! nat p) reward 0 action [];
          env3 = (case v of Sequential \<Rightarrow> env2\<lparr>last_log := entry\<rparr> | Parallelized \<Rightarrow> env2);
          res = \<lparr>res_reward = reward, res_done = env_done env2, res_log = entry\<rparr>
      in (next_player env3, res, get_observation env3, g))"

text \<open>
  Dice movement: the landing square, the pass-GO credit, the tentative position. Returns
  the environment, the landing square and the credit added to the step reward.\<close>

definition roll_and_move :: "MonopolyEnv \<Rightarrow> int \<Rightarrow> int \<Rightarrow> int \<Rightarrow> MonopolyEnv \<times> int \<times> int" where
  "roll_and_move env p prev_position dice_total =
     (let landed_position_this_turn = (prev_position + dice_total) smod board_size env;
          passed_go = (landed_position_this_turn < prev_position \<and> \<not> in_jail env ! nat p);
          credit = (passed_go \<and> prev_position \<noteq> jail_position env);
          env1 = (if credit
                  then env\<lparr>money := (money env)[nat p := money env ! nat p + go_reward env]\<rparr>
                  else env)
      in (env1\<lparr>positions := (positions env1)[nat p := landed_position_this_turn]\<rparr>,
          landed_position_this_turn,
          if credit then go_reward env else 0))"

text \<open>
  Card handling on the landing square. Returns the environment, the amount added to the
  card reward accumulator, the name of the card, whether a card was drawn, the position after
  the card, and the generator.\<close>

definition card_handling ::
  "source_file \<Rightarrow> MonopolyEnv \<Rightarrow> int \<Rightarrow> int \<Rightarrow> rng
     \<Rightarrow> MonopolyEnv \<times> int \<times> string \<times> bool \<times> int \<times> rng" where
  "card_handling v env p pos g =
     (if is_chance_position pos then
        (let (r, g1) = rand g;
             card_index = int r smod chance_deck_size env;
             drawn_card = chance_deck env ! nat card_index;
             (env1, rew) = apply_effect (effect drawn_card) env p
         in (env1, (case v of Sequential \<Rightarrow> rew | Parallelized \<Rightarrow> 0),
             card_name drawn_card, True, positions env1 ! nat p, g1))
      else if is_chest_position pos then
        (let (r, g1) = rand g;
             card_index = int r smod chest_deck_size env;
             drawn_card = chest_deck env ! nat card_index;
             (env1, rew) = apply_effect (effect drawn_card) env p
         in (env1, (case v of Sequential \<Rightarrow> rew | Parallelized \<Rightarrow> 0),
             card_name drawn_card, True, positions env1 ! nat p, g1))
      else (env, 0, [], False, pos, g))"

text \<open>Rent on a square of another player: pay what you can.\<close>

definition pay_rent :: "MonopolyEnv \<Rightarrow> int \<Rightarrow> int \<Rightarrow> MonopolyEnv \<times> int" where
  "pay_rent env p pos =
     (let prop_rent = rent (properties env ! nat pos);
          prop_owner = owner (properties env ! nat pos);
          prop_houses = houses (properties env ! nat pos);
          due = rent_due prop_rent prop_houses;
          payment = (if money env ! nat p < due then money env ! nat p else due);
          env1 = env\<lparr>money := (money env)[nat p := money env ! nat p - payment]\<rparr>;
          env2 = (if prop_owner \<ge> 0 \<and> prop_owner < num_players env1
                  then env1\<lparr>money := (money env1)[nat prop_owner := money env1 ! nat prop_owner + payment]\<rparr>
                  else env1)
      in (env2, payment))"

text \<open>The acting player's own square: at most one house, when the action is Buy.\<close>

definition buy_house :: "MonopolyEnv \<Rightarrow> int \<Rightarrow> int \<Rightarrow> int \<Rightarrow> MonopolyEnv" where
  "buy_house env p pos action =
     (let hc = house_cost (properties env ! nat pos);
          can_buy_houses = (hc > 0 \<and> money env ! nat p \<ge> hc);
          current_houses = houses (properties env ! nat pos);
          max_houses = 5
      in if can_buy_houses \<and> current_houses < max_houses then
           (let affordable_houses = money env ! nat p sdiv hc;
                max_new_houses = max_houses - current_houses;
                houses_can_buy = (if affordable_houses < max_new_houses then affordable_houses
                                  else max_new_houses)
            in if action = 1 \<and> houses_can_buy > 0 then
                 env\<lparr>properties := (properties env)[nat pos :=
                        (properties env ! nat pos)\<lparr>houses := houses (properties env ! nat pos) + 1\<rparr>],
                     money := (money env)[nat p := money env ! nat p - hc * 1]\<rparr>
               else env)
         else env)"

text \<open>
  Square resolution on the position after the card. Returns the environment and the amounts
  added to \<^verbatim>\<open>current_step_reward\<close>, \<^verbatim>\<open>card_reward_contribution\<close> and
  \<^verbatim>\<open>fee_paid_this_turn\<close>.\<close>

definition process_square ::
  "source_file \<Rightarrow> MonopolyEnv \<Rightarrow> int \<Rightarrow> int \<Rightarrow> int \<Rightarrow> bool \<Rightarrow> string
     \<Rightarrow> MonopolyEnv \<times> int \<times> int \<times> int" where
  "process_square v env p pos action card_drawn card_name_drawn =
     (let prop_price = price (properties env ! nat pos);
          prop_owner = owner (properties env ! nat pos)
      in if pos = go_to_jail_position env then
           (if \<not> card_drawn \<or> card_name_drawn \<noteq> ''Go to Jail''
            then (let (env1, r) = go_to_jail env p in (env1, 0, r, 0))
            else (env, 0, 0, 0))
         else if get_fee_for_position pos > 0 then
           (let fee = get_fee_for_position pos
            in (env\<lparr>money := (money env)[nat p := money env ! nat p - fee]\<rparr>, 0, - fee, fee))
         else if prop_price > 0 then
           (if prop_owner = - 1 then
              (if money env ! nat p \<ge> prop_price then
                 (if action = 1
                  then (env\<lparr>money := (money env)[nat p := money env ! nat p - prop_price],
                            properties := (properties env)[nat pos :=
                               (properties env ! nat pos)\<lparr>owner := p, houses := 0\<rparr>]\<rparr>,
                        (case v of Sequential \<Rightarrow> 100 | Parallelized \<Rightarrow> 0), 0, 0)
                  else (env, 0, 0, 0))
               else (env, 0, 0, 0))
            else if prop_owner \<noteq> p then
              (let (env1, payment) = pay_rent env p pos in (env1, 0, - payment, payment))
            else (buy_house env p pos action, 0, 0, 0))
         else (env, 0, 0, 0))"

text \<open>
  Phase 1 of the bankruptcy block: the loop over the squares that sells houses. The list is
  the squares still to visit; the flag returned is \<^verbatim>\<open>bankruptcy_resolved\<close>.\<close>

fun sell_houses :: "int \<Rightarrow> nat list \<Rightarrow> MonopolyEnv \<Rightarrow> MonopolyEnv \<times> bool" where
  "sell_houses p [] env = (env, False)"
| "sell_houses p (i # rest) env =
     (if owner (properties env ! i) = p \<and> houses (properties env ! i) > 0 then
        (let hc = house_cost (properties env ! i) in
         if hc > 0 then
           (let num_houses_to_sell = houses (properties env ! i);
                sell_value_per_house = hc sdiv 2;
                money_from_houses = num_houses_to_sell * sell_value_per_house;
                env1 = env\<lparr>money := (money env)[nat p := money env ! nat p + money_from_houses],
                           properties := (properties env)[i := (properties env ! i)\<lparr>houses := 0\<rparr>]\<rparr>
            in if money env1 ! nat p \<ge> 0 then (env1, True) else sell_houses p rest env1)
         else sell_houses p rest env)
      else sell_houses p rest env)"

text \<open>Phase 2: the loop that sells house-less properties for half their price.\<close>

fun sell_properties :: "int \<Rightarrow> nat list \<Rightarrow> MonopolyEnv \<Rightarrow> MonopolyEnv \<times> bool" where
  "sell_properties p [] env = (env, False)"
| "sell_properties p (i # rest) env =
     (if owner (properties env ! i) = p then
        (if houses (properties env ! i) = 0 \<and> price (properties env ! i) > 0 then
           (let sell_price = price (properties env ! i) sdiv 2;
                env1 = env\<lparr>money := (money env)[nat p := money env ! nat p + sell_price],
                           properties := (properties env)[i := (properties env ! i)\<lparr>owner := - 1\<rparr>]\<rparr>
            in if money env1 ! nat p \<ge> 0 then (env1, True) else sell_properties p rest env1)
         else sell_properties p rest env)
      else sell_properties p rest env)"

text \<open>
  The bankruptcy block, run after all turn actions. Returns the environment and the amount
  added to the card reward accumulator (the penalty, or nothing).\<close>

definition check_bankruptcy :: "MonopolyEnv \<Rightarrow> int \<Rightarrow> MonopolyEnv \<times> int" where
  "check_bankruptcy env p =
     (if money env ! nat p < 0 \<and> \<not> env_done env then
        (let squares = [0..<nat (board_size env)];
             (env1, resolved1) = sell_houses p squares env;
             (env2, bankruptcy_resolved) =
                (if \<not> resolved1 \<and> money env1 ! nat p < 0 then sell_properties p squares env1
                 else (env1, resolved1))
         in if \<not> bankruptcy_resolved \<and> money env2 ! nat p < 0
            then (forfeit_properties (env2\<lparr>env_done := True\<rparr>) p, - 1000)
            else (env2, 0))
      else (env, 0))"

definition finalize_step ::
  "source_file \<Rightarrow> MonopolyEnv \<Rightarrow> int \<Rightarrow> int \<Rightarrow> int \<Rightarrow> int \<Rightarrow> int \<Rightarrow> int \<Rightarrow> int \<Rightarrow> int \<Rightarrow> int
     \<Rightarrow> string \<Rightarrow> rng \<Rightarrow> MonopolyEnv \<times> StepResult \<times> int list \<times> rng" where
  "finalize_step v env p action prev_position dice_total landed money_before_turn
       current_step_reward card_reward_contribution fee_paid_this_turn card_name_drawn g =
     (let env1 = env\<lparr>steps_taken := steps_taken env + 1\<rparr>;
          reward = current_step_reward + card_reward_contribution;
          entry = create_log_entry env1 p prev_position dice_total landed (positions env1 ! nat p)
                    money_before_turn (money env1 ! nat p) reward fee_paid_this_turn action
                    card_name_drawn;
          env2 = (case v of Sequential \<Rightarrow> env1\<lparr>last_log := entry\<rparr> | Parallelized \<Rightarrow> env1);
          res = \<lparr>res_reward = reward, res_done = env_done env2, res_log = entry\<rparr>
      in (if \<not> env_done env2 then next_player env2 else env2, res, get_observation env2, g))"

text \<open>
  The normal turn: a fresh pair of dice, movement, card, square, bankruptcy, finalisation.
  \<open>crc0\<close> and \<open>fee0\<close> are what the jail logic has already put into
  \<^verbatim>\<open>card_reward_contribution\<close> and \<^verbatim>\<open>fee_paid_this_turn\<close>.\<close>

definition normal_turn ::
  "source_file \<Rightarrow> MonopolyEnv \<Rightarrow> int \<Rightarrow> int \<Rightarrow> int \<Rightarrow> int \<Rightarrow> int \<Rightarrow> int \<Rightarrow> rng
     \<Rightarrow> MonopolyEnv \<times> StepResult \<times> int list \<times> rng" where
  "normal_turn v env p action prev_position money_before_turn crc0 fee0 g =
     (let (r1, g1) = rand g;
          (r2, g2) = rand g1;
          dice1 = int (r1 mod 6) + 1;
          dice2 = int (r2 mod 6) + 1;
          dice_total = dice1 + dice2;
          (env1, landed, csr1) = roll_and_move env p prev_position dice_total;
          (env2, crc2, card_name_drawn, card_drawn, pos, g3) = card_handling v env1 p landed g2;
          (env3, csr3, crc3, fee3) = process_square v env2 p pos action card_drawn card_name_drawn;
          (env4, crc4) = check_bankruptcy env3 p
      in finalize_step v env4 p action prev_position dice_total landed money_before_turn
           (csr1 + csr3) (crc0 + crc2 + crc3 + crc4) (fee0 + fee3) card_name_drawn g3)"

text \<open>
  The jail logic at the start of a step. \<open>Inl\<close> is the step that returns from the jail
  branch; \<open>Inr\<close> is the step that goes on to the dice movement, with the environment at
  that point and what the jail logic has put into \<^verbatim>\<open>card_reward_contribution\<close> and
  \<^verbatim>\<open>fee_paid_this_turn\<close>.\<close>

definition jail_logic ::
  "source_file \<Rightarrow> MonopolyEnv \<Rightarrow> int \<Rightarrow> int \<Rightarrow> int \<Rightarrow> int \<Rightarrow> rng
     \<Rightarrow> (MonopolyEnv \<times> StepResult \<times> int list \<times> rng) + (MonopolyEnv \<times> int \<times> int \<times> rng)" where
  "jail_logic v env p action prev_position money_before_turn g =
     (if in_jail env ! nat p then
        (let env1 = env\<lparr>jail_counters := (jail_counters env)[nat p := jail_counters env ! nat p + 1]\<rparr>;
             (r1, g1) = rand g;
             (r2, g2) = rand g1;
             dice1 = int (r1 mod 6) + 1;
             dice2 = int (r2 mod 6) + 1;
             rolled_doubles = (dice1 = dice2);
             turn_limit_reached = (jail_counters env1 ! nat p \<ge> jail_turns env1)
         in if rolled_doubles then
              Inr (env1\<lparr>in_jail := (in_jail env1)[nat p := False],
                        jail_counters := (jail_counters env1)[nat p := 0]\<rparr>, 0, 0, g2)
            else if turn_limit_reached then
              (let jail_fee = 50 in
               Inr (env1\<lparr>in_jail := (in_jail env1)[nat p := False],
                         jail_counters := (jail_counters env1)[nat p := 0],
                         money := (money env1)[nat p := money env1 ! nat p - jail_fee]\<rparr>,
                    - jail_fee, jail_fee, g2))
            else Inl (jail_turn_ends v env1 p action prev_position money_before_turn g2))
      else Inr (env, 0, 0, g))"

text \<open>
  One step. The result is the environment, the \<^verbatim>\<open>StepResult\<close>, the observation written
  to the caller's buffer, and the generator.\<close>

definition step_monopoly_env_in ::
  "source_file \<Rightarrow> MonopolyEnv \<Rightarrow> int \<Rightarrow> rng \<Rightarrow> MonopolyEnv \<times> StepResult \<times> int list \<times> rng" where
  "step_monopoly_env_in v env action g =
     (if env_done env then
        (env, \<lparr>res_reward = 0, res_done = env_done env,
               res_log = (last_log env)\<lparr>log_step := steps_taken env\<rparr>\<rparr>,
         get_observation env, g)
      else
        (let p = current_player env;
             money_before_turn = money env ! nat p;
             prev_position = positions env ! nat p
         in case jail_logic v env p action prev_position money_before_turn g of
              Inl r \<Rightarrow> r
            | Inr (env1, crc0, fee0, g1) \<Rightarrow>
                normal_turn v env1 p action prev_position money_before_turn crc0 fee0 g1))"

definition step_monopoly_env ::
  "MonopolyEnv \<Rightarrow> int \<Rightarrow> rng \<Rightarrow> MonopolyEnv \<times> StepResult \<times> int list \<times> rng" where
  "step_monopoly_env = step_monopoly_env_in Sequential"

section \<open>Well-formed environments and reachable states\<close>

text \<open>
  What every environment built by \<^verbatim>\<open>create_monopoly_env\<close> satisfies and every step keeps:
  the configuration and the array sizes, the players' indices and positions in range, and, for
  every square, the static data of the board table and the ownership and house conditions.\<close>

definition config_ok :: "MonopolyEnv \<Rightarrow> bool" where
  "config_ok env \<longleftrightarrow>
     board_size env = 40 \<and> jail_position env = 10 \<and> go_to_jail_position env = 30 \<and>
     jail_turns env = 3 \<and> 0 < num_players env \<and> num_players env \<le> 8 \<and>
     length (positions env) = 8 \<and> length (money env) = 8 \<and> length (in_jail env) = 8 \<and>
     length (jail_counters env) = 8 \<and> length (properties env) = 40 \<and>
     chance_deck env = initial_chance_deck \<and> chance_deck_size env = 4 \<and>
     chest_deck env = initial_chest_deck \<and> chest_deck_size env = 4"

definition players_ok :: "MonopolyEnv \<Rightarrow> bool" where
  "players_ok env \<longleftrightarrow>
     0 \<le> current_player env \<and> current_player env < num_players env \<and>
     (\<forall>i \<in> set [0..<nat (num_players env)]. 0 \<le> positions env ! i \<and> positions env ! i < 40)"

definition square_ok :: "int \<Rightarrow> Property \<Rightarrow> Property \<Rightarrow> bool" where
  "square_ok n init pr \<longleftrightarrow>
     price pr = price init \<and> rent pr = rent init \<and> house_cost pr = house_cost init \<and>
     0 \<le> houses pr \<and> houses pr \<le> 5 \<and>
     (owner pr = - 1 \<longrightarrow> houses pr = 0) \<and>
     (owner pr \<noteq> - 1 \<longrightarrow> 0 \<le> owner pr \<and> owner pr < n \<and> 0 < price pr) \<and>
     (0 < houses pr \<longrightarrow> 0 < house_cost pr)"

definition board_ok :: "MonopolyEnv \<Rightarrow> bool" where
  "board_ok env \<longleftrightarrow>
     (\<forall>i \<in> set [0..<40]. square_ok (num_players env) (initialize_properties ! i) (properties env ! i))"

definition env_inv :: "MonopolyEnv \<Rightarrow> bool" where
  "env_inv env \<longleftrightarrow> config_ok env \<and> players_ok env \<and> board_ok env"

text \<open>
  The states reachable from a fresh or reset environment by step calls, with any action and
  any outcome of the random generator, through either copy of the step function.\<close>

inductive reachable :: "MonopolyEnv \<Rightarrow> bool" where
  fresh: "create_monopoly_env n s gr = Some env \<Longrightarrow> reachable env"
| reset: "reachable env \<Longrightarrow> reachable (fst (reset_monopoly_env env))"
| step: "reachable env \<Longrightarrow> reachable (fst (step_monopoly_env_in v env action g))"

section \<open>The Monte Carlo agent\<close>

text \<open>
  The value table and the per-episode visited set are chained hash tables: an array of
  buckets, each a chain of entries, a new entry going to the front of its chain. A pointer to
  an entry is the pair of its bucket and its place in the chain. Allocations are taken to
  succeed. The doubles that hold returns and action values are modelled as reals.\<close>

record StateTuple =
  position :: int
  money_bin :: int
  current_prop_owner :: int
  st_in_jail :: int

record QValueData =
  sum_returns :: real
  count :: int
  q_value :: real

record QTableEntry =
  key :: StateTuple
  qvalues :: "QValueData list"

record QHashTable =
  ht_table :: "QTableEntry list list"
  ht_size :: int
  ht_count :: int

record VisitedKey =
  vk_state :: StateTuple
  vk_action :: int

record VisitedSet =
  vs_table :: "VisitedKey list list"
  vs_size :: int
  vs_count :: int

record EpisodeStep =
  es_state :: StateTuple
  es_action :: int
  es_reward :: real

record MonteCarloAgent =
  epsilon :: real
  agent_num_players :: int
  q_table :: QHashTable

text \<open>The hash is computed in \<^verbatim>\<open>unsigned int\<close> arithmetic, which wraps at \<open>2^32\<close>.\<close>

definition hash_state_tuple :: "StateTuple \<Rightarrow> int \<Rightarrow> nat" where
  "hash_state_tuple s table_size =
     (let m = (word_of_int table_size :: 32 word);
          h0 = (17 :: 32 word);
          h1 = (h0 * 31 + word_of_int (position s)) mod m;
          h2 = (h1 * 31 + word_of_int (money_bin s)) mod m;
          h3 = (h2 * 31 + word_of_int (current_prop_owner s + 10)) mod m;
          h4 = (h3 * 31 + word_of_int (st_in_jail s)) mod m
      in unat h4)"

definition compare_state_tuples :: "StateTuple \<Rightarrow> StateTuple \<Rightarrow> bool" where
  "compare_state_tuples s1 s2 \<longleftrightarrow>
     position s1 = position s2 \<and> money_bin s1 = money_bin s2 \<and>
     current_prop_owner s1 = current_prop_owner s2 \<and> st_in_jail s1 = st_in_jail s2"

definition create_q_hash_table :: "int \<Rightarrow> QHashTable" where
  "create_q_hash_table sz = \<lparr>ht_table = replicate (nat sz) [], ht_size = sz, ht_count = 0\<rparr>"

text \<open>The search along a chain: the place of the first entry with the key.\<close>

fun find_in_chain :: "StateTuple \<Rightarrow> QTableEntry list \<Rightarrow> nat option" where
  "find_in_chain k [] = None"
| "find_in_chain k (e # es) =
     (if compare_state_tuples (key e) k then Some 0 else map_option Suc (find_in_chain k es))"

definition zero_qvalue :: QValueData where
  "zero_qvalue = \<lparr>sum_returns = 0, count = 0, q_value = 0\<rparr>"

definition find_or_create_q_entry :: "QHashTable \<Rightarrow> StateTuple \<Rightarrow> QHashTable \<times> (nat \<times> nat)" where
  "find_or_create_q_entry ht k =
     (let index = hash_state_tuple k (ht_size ht);
          chain = ht_table ht ! index
      in case find_in_chain k chain of
           Some j \<Rightarrow> (ht, (index, j))
         | None \<Rightarrow>
             (ht\<lparr>ht_table := (ht_table ht)[index :=
                     \<lparr>key = k, qvalues = [zero_qvalue, zero_qvalue]\<rparr> # chain],
                  ht_count := ht_count ht + 1\<rparr>,
              (index, 0)))"

definition entry_at :: "QHashTable \<Rightarrow> nat \<times> nat \<Rightarrow> QTableEntry" where
  "entry_at ht ptr = ht_table ht ! fst ptr ! snd ptr"

definition store_entry :: "QHashTable \<Rightarrow> nat \<times> nat \<Rightarrow> QTableEntry \<Rightarrow> QHashTable" where
  "store_entry ht ptr e =
     ht\<lparr>ht_table := (ht_table ht)[fst ptr := (ht_table ht ! fst ptr)[snd ptr := e]]\<rparr>"

definition hash_visited_key :: "VisitedKey \<Rightarrow> int \<Rightarrow> nat" where
  "hash_visited_key k table_size =
     (let state_hash = (of_nat (hash_state_tuple (vk_state k) table_size) :: 32 word)
      in unat ((state_hash * 31 + word_of_int (vk_action k)) mod word_of_int table_size))"

definition compare_visited_keys :: "VisitedKey \<Rightarrow> VisitedKey \<Rightarrow> bool" where
  "compare_visited_keys k1 k2 \<longleftrightarrow>
     vk_action k1 = vk_action k2 \<and> compare_state_tuples (vk_state k1) (vk_state k2)"

definition create_visited_set :: "int \<Rightarrow> VisitedSet" where
  "create_visited_set sz = \<lparr>vs_table = replicate (nat sz) [], vs_size = sz, vs_count = 0\<rparr>"

fun visited_in_chain :: "VisitedKey \<Rightarrow> VisitedKey list \<Rightarrow> bool" where
  "visited_in_chain k [] = False"
| "visited_in_chain k (e # es) = (if compare_visited_keys e k then True else visited_in_chain k es)"

text \<open>Returns whether the key was present, and the set with the key in it.\<close>

definition check_and_add_visited :: "VisitedSet \<Rightarrow> VisitedKey \<Rightarrow> bool \<times> VisitedSet" where
  "check_and_add_visited vs k =
     (let index = hash_visited_key k (vs_size vs);
          chain = vs_table vs ! index
      in if visited_in_chain k chain then (True, vs)
         else (False, vs\<lparr>vs_table := (vs_table vs)[index := k # chain],
                         vs_count := vs_count vs + 1\<rparr>))"

definition create_monte_carlo_agent :: "int \<Rightarrow> real \<Rightarrow> MonteCarloAgent" where
  "create_monte_carlo_agent n_players eps =
     \<lparr>epsilon = eps, agent_num_players = n_players,
      q_table = create_q_hash_table Q_TABLE_INITIAL_SIZE\<rparr>"

text \<open>
  Action selection. Returns the action, the agent (the lookup may create the entry of the
  state) and the generator.\<close>

definition select_action_mc ::
  "MonteCarloAgent \<Rightarrow> StateTuple \<Rightarrow> MonopolyEnv \<Rightarrow> rng \<Rightarrow> int \<times> MonteCarloAgent \<times> rng" where
  "select_action_mc agent state_tuple env g =
     (let p = current_player env;
          pos = positions env ! nat p;
          is_buyable =
            (if \<not> in_jail env ! nat p \<and> pos \<ge> 0 \<and> pos < board_size env
             then price (properties env ! nat pos) > 0 \<and> owner (properties env ! nat pos) = - 1 \<and>
                  money env ! nat p \<ge> price (properties env ! nat pos)
             else False)
      in if \<not> is_buyable then (0, agent, g)
         else
           (let (r, g1) = rand g in
            if real r / real RAND_MAX < epsilon agent then
              (let (r2, g2) = rand g1 in (int (r2 mod 2), agent, g2))
            else
              (let (qt, ptr) = find_or_create_q_entry (q_table agent) state_tuple;
                   entry = entry_at qt ptr;
                   q_val_0 = q_value (qvalues entry ! 0);
                   q_val_1 = q_value (qvalues entry ! 1)
               in if \<bar>q_val_0 - q_val_1\<bar> < 1 / 10 ^ 9 then
                    (let (r2, g2) = rand g1 in (int (r2 mod 2), agent\<lparr>q_table := qt\<rparr>, g2))
                  else if q_val_1 > q_val_0 then (1, agent\<lparr>q_table := qt\<rparr>, g1)
                  else (0, agent\<lparr>q_table := qt\<rparr>, g1))))"

text \<open>
  The backward pass of \<^verbatim>\<open>update_mc\<close>: the list is the steps still to visit, last step of
  the episode first; the state is the return so far, the visited set and the value table.\<close>

fun update_loop ::
  "EpisodeStep list \<Rightarrow> real \<times> VisitedSet \<times> QHashTable \<Rightarrow> real \<times> VisitedSet \<times> QHashTable" where
  "update_loop [] s = s"
| "update_loop (st # rest) (G, visited, qt) =
     (let G1 = G + es_reward st;
          current_key = \<lparr>vk_state = es_state st, vk_action = es_action st\<rparr>;
          (was_visited, visited1) = check_and_add_visited visited current_key
      in if \<not> was_visited then
           (let (qt1, ptr) = find_or_create_q_entry qt (es_state st);
                entry = entry_at qt1 ptr;
                a = nat (es_action st);
                d = qvalues entry ! a;
                d1 = d\<lparr>sum_returns := sum_returns d + G1, count := count d + 1\<rparr>;
                d2 = d1\<lparr>q_value := sum_returns d1 / real_of_int (count d1)\<rparr>
            in update_loop rest (G1, visited1, store_entry qt1 ptr (entry\<lparr>qvalues := (qvalues entry)[a := d2]\<rparr>)))
         else update_loop rest (G1, visited1, qt))"

text \<open>The episode history is the list of its steps in the order they were played.\<close>

definition update_mc :: "MonteCarloAgent \<Rightarrow> EpisodeStep list \<Rightarrow> MonteCarloAgent" where
  "update_mc agent history =
     agent\<lparr>q_table := snd (snd (update_loop (rev history)
                (0, create_visited_set VISITED_SET_INITIAL_SIZE, q_table agent)))\<rparr>"

section \<open>The parallel per-episode simulator\<close>








section \<open>The bankruptcy resolver as the specification describes it\<close>








section \<open>The value table and the visited set as maps\<close>

text \<open>
  What a lookup in the chained hash tables finds: the statistics stored for a state and an
  action (zero statistics when the state has no entry yet, as a lookup would create them), and
  whether a (state, action) pair is in the visited set. A table is well formed when its bucket
  array has the size it records and every entry holds the statistics of the two actions.\<close>

definition ht_wf :: "QHashTable \<Rightarrow> bool" where
  "ht_wf ht \<longleftrightarrow>
     0 < ht_size ht \<and> ht_size ht < 2 ^ 31 \<and> length (ht_table ht) = nat (ht_size ht) \<and>
     list_all (list_all (\<lambda>e. length (qvalues e) = 2)) (ht_table ht)"

definition q_data :: "QHashTable \<Rightarrow> StateTuple \<Rightarrow> nat \<Rightarrow> QValueData" where
  "q_data ht k a =
     (case find_in_chain k (ht_table ht ! hash_state_tuple k (ht_size ht)) of
        None \<Rightarrow> zero_qvalue
      | Some j \<Rightarrow> qvalues (ht_table ht ! hash_state_tuple k (ht_size ht) ! j) ! a)"

definition vs_wf :: "VisitedSet \<Rightarrow> bool" where
  "vs_wf vs \<longleftrightarrow> 0 < vs_size vs \<and> vs_size vs < 2 ^ 31 \<and> length (vs_table vs) = nat (vs_size vs)"

definition vs_mem :: "VisitedSet \<Rightarrow> VisitedKey \<Rightarrow> bool" where
  "vs_mem vs k = visited_in_chain k (vs_table vs ! hash_visited_key k (vs_size vs))"

text \<open>
  The specification's \<open>record(key, action, return)\<close>: the sum grows by the return, the count
  by one, the mean is their quotient.\<close>

definition record_return :: "QValueData \<Rightarrow> real \<Rightarrow> QValueData" where
  "record_return d r =
     \<lparr>sum_returns = sum_returns d + r, count = count d + 1,
      q_value = (sum_returns d + r) / real_of_int (count d + 1)\<rparr>"

text \<open>
  The return the backward scan holds when it first meets the pair \<open>(k, a)\<close>, scanning the
  steps of the list in order with the return \<open>G\<close> so far; \<open>None\<close> when the pair does not
  occur.\<close>

fun first_visit_return :: "real \<Rightarrow> EpisodeStep list \<Rightarrow> StateTuple \<Rightarrow> int \<Rightarrow> real option" where
  "first_visit_return G [] k a = None"
| "first_visit_return G (st # rest) k a =
     (if es_state st = k \<and> es_action st = a then Some (G + es_reward st)
      else first_visit_return (G + es_reward st) rest k a)"

text \<open>
  The specification's epsilon-greedy rule over the two stored action values: with
  probability epsilon a uniform choice between Pass (0) and Buy (1), else the action with the
  higher value, a near tie being broken by a uniform choice. The random events are the draws of
  the generator.\<close>

definition spec_epsilon_greedy :: "real \<Rightarrow> real \<Rightarrow> real \<Rightarrow> rng \<Rightarrow> int \<times> rng" where
  "spec_epsilon_greedy eps q0 q1 g =
     (let (u, g1) = rand g in
      if real u / real RAND_MAX < eps then (let (r, g2) = rand g1 in (int (r mod 2), g2))
      else if \<bar>q0 - q1\<bar> < 1 / 10 ^ 9 then (let (r, g2) = rand g1 in (int (r mod 2), g2))
      else if q0 < q1 then (1, g1) else (0, g1))"

text \<open>
  The only situation in which the code lets the agent choose: the acting player is not in
  jail and stands on an unowned property they can afford.\<close>

definition purchase_decision :: "MonopolyEnv \<Rightarrow> bool" where
  "purchase_decision env \<longleftrightarrow>
     \<not> in_jail env ! nat (current_player env) \<and>
     0 \<le> positions env ! nat (current_player env) \<and>
     positions env ! nat (current_player env) < board_size env \<and>
     0 < price (properties env ! nat (positions env ! nat (current_player env))) \<and>
     owner (properties env ! nat (positions env ! nat (current_player env))) = - 1 \<and>
     price (properties env ! nat (positions env ! nat (current_player env)))
       \<le> money env ! nat (current_player env)"

text \<open>
  What the updater does to the table at a first visit: the entry of the state is found or
  created, the return added to the statistics of the action, the mean recomputed.\<close>

definition recorded :: "QHashTable \<Rightarrow> StateTuple \<Rightarrow> nat \<Rightarrow> real \<Rightarrow> QHashTable" where
  "recorded qt s a G1 =
     (let (qt1, ptr) = find_or_create_q_entry qt s;
          entry = entry_at qt1 ptr;
          d = qvalues entry ! a;
          d1 = d\<lparr>sum_returns := sum_returns d + G1, count := count d + 1\<rparr>;
          d2 = d1\<lparr>q_value := sum_returns d1 / real_of_int (count d1)\<rparr>
      in store_entry qt1 ptr (entry\<lparr>qvalues := (qvalues entry)[a := d2]\<rparr>))"

text \<open>The actions of a trajectory are Pass (0) or Buy (1), the two slots of an entry.\<close>

definition actions_ok :: "EpisodeStep list \<Rightarrow> bool" where
  "actions_ok h = list_all (\<lambda>st. es_action st = 0 \<or> es_action st = 1) h"

definition occurs :: "StateTuple \<Rightarrow> int \<Rightarrow> EpisodeStep list \<Rightarrow> bool" where
  "occurs k a h = list_ex (\<lambda>st. es_state st = k \<and> es_action st = a) h"

text \<open>At most one record per pair and episode: none when the pair was not visited.\<close>

definition visit_update :: "QValueData \<Rightarrow> real option \<Rightarrow> QValueData" where
  "visit_update d r = (case r of None \<Rightarrow> d | Some R \<Rightarrow> record_return d R)"

text \<open>
  The training loop runs the updater once after each episode; \<open>updates\<close> is the agent after
  the episodes of a list, \<open>recorded_returns\<close> the returns these episodes record for a pair,
  in order.\<close>

definition updates :: "MonteCarloAgent \<Rightarrow> EpisodeStep list list \<Rightarrow> MonteCarloAgent" where
  "updates agent episodes = foldl update_mc agent episodes"

definition recorded_returns :: "EpisodeStep list list \<Rightarrow> StateTuple \<Rightarrow> int \<Rightarrow> real list" where
  "recorded_returns episodes k a =
     List.map_filter (\<lambda>h. first_visit_return 0 (rev h) k a) episodes"

text \<open>
  The agents the program can hold: a created agent, and what action selection and the
  updater make of one.\<close>

inductive trained :: "MonteCarloAgent \<Rightarrow> bool" where
  created: "trained (create_monte_carlo_agent n eps)"
| selected: "trained agent \<Longrightarrow> trained (fst (snd (select_action_mc agent st env g)))"
| updated: "trained agent \<Longrightarrow> actions_ok h \<Longrightarrow> trained (update_mc agent h)"

section \<open>Example states\<close>

text \<open>A fresh two-player game whose terminal flag is set.\<close>

definition terminal_env :: MonopolyEnv where
  "terminal_env = (the (create_monopoly_env 2 1500 200))\<lparr>env_done := True\<rparr>"


text \<open>
  Player 0 is in jail and has already spent two turns there. The generator gives the dice
  1 and 2 first, then 2 and 4.\<close>

definition jail_release_env :: MonopolyEnv where
  "jail_release_env = (the (create_monopoly_env 2 1500 200))
     \<lparr>positions := [10, 0, - 1, - 1, - 1, - 1, - 1, - 1],
      in_jail := [True, False, False, False, False, False, False, False],
      jail_counters := [2, 0, 0, 0, 0, 0, 0, 0]\<rparr>"

definition jail_release_rng :: rng where
  "jail_release_rng = (\<lambda>n. if n = 0 then 0 else if n = 3 then 3 else 1)"






text \<open>
  A generator that returns the values of a list, then zeros; and a run of steps, each with
  its action and the values the generator returns in it.\<close>

definition rng_of :: "nat list \<Rightarrow> rng" where
  "rng_of xs = (\<lambda>n. if n < length xs then xs ! n else 0)"

definition run_steps :: "MonopolyEnv \<Rightarrow> (int \<times> nat list) list \<Rightarrow> MonopolyEnv" where
  "run_steps env tr = fold (\<lambda>(a, xs) e. fst (step_monopoly_env e a (rng_of xs))) tr env"

text \<open>
  Nine steps of a two-player game with starting cash 200. Player 0 buys square 5 and is
  sent to jail by a card; player 1 buys square 15 and is sent to jail by a card; at the turn
  limit player 0 has no cash, pays the fee of 50 (cash -50), moves to square 15 and "pays"
  min(-50, 25) = -50 in rent, which takes 50 from player 1. Player 1 is next to act, is in jail,
  has -50 in cash and owns square 15.\<close>

definition jailed_debtor_env :: MonopolyEnv where
  "jailed_debtor_env =
     run_steps (the (create_monopoly_env 2 200 200))
       [(1, [1, 2]), (0, [2, 4]), (0, [0, 0, 1]), (1, [2, 3]), (0, [0, 1]),
        (0, [2, 3, 1]), (0, [0, 1]), (0, [0, 1]), (0, [0, 1, 1, 2])]"

text \<open>The state those nine steps end in, written out.\<close>

definition jailed_debtor_state :: MonopolyEnv where
  "jailed_debtor_state = (the (create_monopoly_env 2 200 200))
     \<lparr>positions := [15, 10, - 1, - 1, - 1, - 1, - 1, - 1],
      money := [0, - 50, 0, 0, 0, 0, 0, 0],
      in_jail := [False, True, False, False, False, False, False, False],
      jail_counters := [0, 1, 0, 0, 0, 0, 0, 0],
      properties := initialize_properties
        [5 := (initialize_properties ! 5)\<lparr>owner := 0\<rparr>, 15 := (initialize_properties ! 15)\<lparr>owner := 1\<rparr>],
      current_player := 1, steps_taken := 9,
      last_log := \<lparr>log_step = 9, log_player = 0, position_before = 10, dice_roll = 5,
        landed_on_position = 15, position_after = 15, money_before = 0,
        money_after = 0, log_reward = 0, log_done = False, log_in_jail = False,
        fee_paid = 0, agent_action = 0, num_owned_properties = 1,
        log_card_drawn = [], episode_id = 0\<rparr>\<rparr>"


text \<open>
  A fresh two-player game, and the same game with square 3 already owned by player 0. With the
  generator below the dice are 1 and 2, so player 0 moves from GO to square 3 (price 60, house
  cost 50).\<close>

definition fresh_env :: MonopolyEnv where
  "fresh_env = the (create_monopoly_env 2 1500 200)"

definition own_square_env :: MonopolyEnv where
  "own_square_env = (the (create_monopoly_env 2 1500 200))
     \<lparr>properties := initialize_properties[3 := (initialize_properties ! 3)\<lparr>owner := 0\<rparr>]\<rparr>"

text \<open>
  Two turns into a two-player game. In \<open>returning_owner_env\<close> player 0 rolled 1 and 2,
  bought square 3 and, after the turn of player 1, is to act again standing on that square,
  with cash for a house. In \<open>passed_env\<close> player 0 declined the purchase, and stands on the
  unowned square. \<open>owner_state\<close> and \<open>buyer_state\<close> are the state tuples of the acting
  player in the two situations.\<close>

definition returning_owner_env :: MonopolyEnv where
  "returning_owner_env = run_steps fresh_env [(1, [0, 1]), (0, [2, 1])]"

definition passed_env :: MonopolyEnv where
  "passed_env = run_steps fresh_env [(0, [0, 1]), (0, [2, 1])]"

definition owner_state :: StateTuple where
  "owner_state = \<lparr>position = 3, money_bin = 14, current_prop_owner = 0, st_in_jail = 0\<rparr>"

definition buyer_state :: StateTuple where
  "buyer_state = \<lparr>position = 3, money_bin = 15, current_prop_owner = - 1, st_in_jail = 0\<rparr>"

text \<open>
  An agent that has seen one episode in which passing on its own square was followed by a
  loss of 5, and a generator whose first draw is too high for exploration.\<close>

definition learned_agent :: MonteCarloAgent where
  "learned_agent = update_mc (create_monte_carlo_agent 2 (1 / 10))
     [\<lparr>es_state = owner_state, es_action = 0, es_reward = - 5\<rparr>]"

definition greedy_rng :: rng where
  "greedy_rng = rng_of [2147483647, 1]"

text \<open>Two episodes; the first visits the pair (\<open>owner_state\<close>, Buy) twice.\<close>

definition episode_pre :: "EpisodeStep list" where
  "episode_pre = [\<lparr>es_state = owner_state, es_action = 1, es_reward = 10\<rparr>,
                  \<lparr>es_state = buyer_state, es_action = 0, es_reward = 5\<rparr>]"

definition episode_step :: EpisodeStep where
  "episode_step = \<lparr>es_state = owner_state, es_action = 1, es_reward = 3\<rparr>"

definition episode_post :: "EpisodeStep list" where
  "episode_post = [\<lparr>es_state = buyer_state, es_action = 0, es_reward = 2\<rparr>]"

definition episode_b :: "EpisodeStep list" where
  "episode_b = [\<lparr>es_state = owner_state, es_action = 1, es_reward = 7\<rparr>]"

section \<open>The step function keeps environments well formed\<close>

lemma smod_nonneg: "0 \<le> a \<Longrightarrow> 0 < b \<Longrightarrow> (a::int) smod b = a mod b"
  by (simp add: signed_modulo_int_def sgn_if)

lemma init_len: "length initialize_properties = 40"
  by (simp add: initialize_properties_def)

lemma init_unowned: "pr \<in> set initialize_properties \<Longrightarrow> owner pr = - 1 \<and> houses pr = 0"
  by (auto simp add: initialize_properties_def non_property_def mk_property_def)

lemma square_ok_unowned: "owner pr = - 1 \<Longrightarrow> houses pr = 0 \<Longrightarrow> square_ok n pr pr"
  by (simp add: square_ok_def)

lemma create_inv: "create_monopoly_env n s gr = Some env \<Longrightarrow> env_inv env"
  by (auto simp add: create_monopoly_env_def env_inv_def config_ok_def players_ok_def board_ok_def
      MAX_PLAYERS_def BOARD_SIZE_def init_len nth_append init_unowned square_ok_unowned split: if_splits)

lemma fold_inv:
  assumes "P s" and "\<And>i s. P s \<Longrightarrow> P (f i s)"
  shows "P (fold f xs s)"
  using assms(1) by (induction xs arbitrary: s) (simp_all add: assms(2))

lemma nth_upd: "xs[k := x] ! i = (if i = k \<and> k < length xs then x else xs ! i)"
  by (cases "k < length xs") (auto simp add: nth_list_update list_update_beyond)

lemmas inv_defs = env_inv_def config_ok_def players_ok_def board_ok_def

lemma inv_money: "env_inv env \<Longrightarrow> env_inv (env\<lparr>money := (money env)[k := x]\<rparr>)"
  by (simp add: inv_defs)

lemma inv_in_jail: "env_inv env \<Longrightarrow> env_inv (env\<lparr>in_jail := (in_jail env)[k := x]\<rparr>)"
  by (simp add: inv_defs)

lemma inv_jail_counters: "env_inv env \<Longrightarrow> env_inv (env\<lparr>jail_counters := (jail_counters env)[k := x]\<rparr>)"
  by (simp add: inv_defs)

lemma inv_positions:
  "env_inv env \<Longrightarrow> 0 \<le> x \<Longrightarrow> x < 40 \<Longrightarrow> env_inv (env\<lparr>positions := (positions env)[k := x]\<rparr>)"
  by (auto simp add: inv_defs nth_upd)

lemma inv_properties:
  "env_inv env \<Longrightarrow> (i < 40 \<Longrightarrow> square_ok (num_players env) (initialize_properties ! i) pr)
     \<Longrightarrow> env_inv (env\<lparr>properties := (properties env)[i := pr]\<rparr>)"
  by (auto simp add: inv_defs nth_upd)

lemma inv_steps: "env_inv env \<Longrightarrow> env_inv (env\<lparr>steps_taken := x\<rparr>)"
  by (simp add: inv_defs)

lemma inv_done: "env_inv env \<Longrightarrow> env_inv (env\<lparr>env_done := x\<rparr>)"
  by (simp add: inv_defs)

lemma inv_last_log: "env_inv env \<Longrightarrow> env_inv (env\<lparr>last_log := x\<rparr>)"
  by (simp add: inv_defs)

lemma inv_next_player: "env_inv env \<Longrightarrow> env_inv (next_player env)"
  by (auto simp add: inv_defs next_player_def smod_nonneg)

lemma inv_square: "env_inv env \<Longrightarrow> i < 40 \<Longrightarrow>
   square_ok (num_players env) (initialize_properties ! i) (properties env ! i)"
  by (simp add: inv_defs)

lemma inv_forfeit: "env_inv env \<Longrightarrow> env_inv (forfeit_properties env p)"
  unfolding forfeit_properties_def
  apply (rule fold_inv)
   apply assumption
  subgoal for i s
    using inv_square [of s i]
    by (auto intro!: inv_properties simp add: square_ok_def)
  done

lemma inv_reset_properties: "env_inv env \<Longrightarrow> env_inv (reset_properties env)"
  unfolding reset_properties_def
  apply (rule fold_inv)
   apply assumption
  subgoal for i s
    using inv_square [of s i]
    by (auto intro!: inv_properties simp add: square_ok_def)
  done

lemma inv_reset_players: "env_inv env \<Longrightarrow> env_inv (reset_players env)"
  unfolding reset_players_def
  apply (rule fold_inv)
   apply assumption
  subgoal for i s
    by (auto simp add: inv_defs nth_upd)
  done

lemma inv_reset: "env_inv env \<Longrightarrow> env_inv (fst (reset_monopoly_env env))"
  using inv_reset_players [OF inv_reset_properties, of env]
  by (simp add: reset_monopoly_env_def Let_def inv_defs)

lemma inv_go_to_jail: "env_inv env \<Longrightarrow> env_inv (fst (go_to_jail env p))"
  by (auto simp add: go_to_jail_def inv_defs nth_upd)

lemma inv_adjust_money: "env_inv env \<Longrightarrow> env_inv (fst (adjust_money env p a))"
  by (simp add: adjust_money_def inv_defs)

lemma inv_advance_to_go: "env_inv env \<Longrightarrow> env_inv (fst (advance_to_go env p))"
  by (auto simp add: advance_to_go_def Let_def inv_defs nth_upd)

lemma inv_apply_effect: "env_inv env \<Longrightarrow> env_inv (fst (apply_effect c env p))"
  by (cases c) (simp_all add: inv_go_to_jail inv_adjust_money inv_advance_to_go)

lemma inv_roll_and_move:
  assumes "env_inv env" "0 \<le> prev" "0 \<le> d"
  shows "env_inv (fst (roll_and_move env p prev d))"
proof -
  have "0 \<le> (prev + d) smod 40" "(prev + d) smod 40 < 40"
    using assms by (simp_all add: smod_nonneg)
  then show ?thesis using assms(1)
    by (auto simp add: roll_and_move_def Let_def inv_defs nth_upd)
qed

lemma inv_card_handling:
  "env_inv env \<Longrightarrow> env_inv (fst (card_handling v env p pos g))"
  by (auto simp add: card_handling_def Let_def split_def inv_apply_effect)

lemma inv_pay_rent: "env_inv env \<Longrightarrow> env_inv (fst (pay_rent env p pos))"
  by (simp add: pay_rent_def Let_def inv_defs)

lemma inv_buy_house:
  assumes "env_inv env" "0 \<le> pos" "pos < 40" "owner (properties env ! nat pos) \<noteq> - 1"
  shows "env_inv (buy_house env p pos action)"
proof -
  have upd: "houses (properties env ! nat pos) < 5 \<Longrightarrow> 0 < house_cost (properties env ! nat pos) \<Longrightarrow>
     env_inv (env\<lparr>properties := (properties env)[nat pos :=
                        (properties env ! nat pos)\<lparr>houses := houses (properties env ! nat pos) + 1\<rparr>],
                     money := (money env)[nat p := x]\<rparr>)" for x
    using assms by (auto simp add: inv_defs square_ok_def nth_upd)
  show ?thesis
    unfolding buy_house_def Let_def using assms(1) upd by simp
qed

lemma inv_process_square:
  assumes "env_inv env" "0 \<le> pos" "pos < 40" "0 \<le> p" "p < num_players env"
  shows "env_inv (fst (process_square v env p pos action cd cn))"
proof -
  have sq: "square_ok (num_players env) (initialize_properties ! nat pos) (properties env ! nat pos)"
    using assms by (simp add: inv_square)
  have buy: "0 < price (properties env ! nat pos) \<Longrightarrow>
     env_inv (env\<lparr>money := (money env)[nat p := x],
        properties := (properties env)[nat pos := (properties env ! nat pos)\<lparr>owner := p, houses := 0\<rparr>]\<rparr>)" for x
    using assms sq by (auto simp add: inv_defs square_ok_def nth_upd)
  show ?thesis
    using assms(1-3) buy
    by (auto simp add: process_square_def Let_def split_def inv_go_to_jail inv_money inv_pay_rent
        inv_buy_house)
qed

lemma inv_sell_houses:
  "env_inv env \<Longrightarrow> env_inv (fst (sell_houses p sq env))"
proof (induction sq arbitrary: env)
  case Nil
  then show ?case by simp
next
  case (Cons i rest)
  have upd: "env_inv (env\<lparr>money := (money env)[nat p := x],
        properties := (properties env)[i := (properties env ! i)\<lparr>houses := 0\<rparr>]\<rparr>)" for x
    using Cons.prems by (auto simp add: inv_defs square_ok_def nth_upd)
  show ?case using Cons.prems Cons.IH upd by (simp add: Let_def)
qed

lemma inv_sell_properties:
  "env_inv env \<Longrightarrow> env_inv (fst (sell_properties p sq env))"
proof (induction sq arbitrary: env)
  case Nil
  then show ?case by simp
next
  case (Cons i rest)
  have upd: "houses (properties env ! i) = 0 \<Longrightarrow>
     env_inv (env\<lparr>money := (money env)[nat p := x],
        properties := (properties env)[i := (properties env ! i)\<lparr>owner := - 1\<rparr>]\<rparr>)" for x
    using Cons.prems by (auto simp add: inv_defs square_ok_def nth_upd)
  show ?case using Cons.prems Cons.IH upd by (simp add: Let_def)
qed

lemma inv_check_bankruptcy: "env_inv env \<Longrightarrow> env_inv (fst (check_bankruptcy env p))"
  by (auto simp add: check_bankruptcy_def Let_def split_def inv_forfeit inv_done
      inv_sell_houses inv_sell_properties)

lemma inv_finalize_step:
  "env_inv env \<Longrightarrow> env_inv (fst (finalize_step v env p a pp dt l mb csr crc fee cn g))"
  by (cases v) (simp_all add: finalize_step_def Let_def inv_next_player inv_steps inv_last_log)

lemma inv_jail_turn_ends:
  "env_inv env \<Longrightarrow> env_inv (fst (jail_turn_ends v env p a pp mb g))"
  by (cases v) (simp_all add: jail_turn_ends_def Let_def inv_next_player inv_steps inv_last_log
      inv_forfeit inv_done)


lemma num_players_apply_effect: "num_players (fst (apply_effect c env p)) = num_players env"
  by (cases c) (simp_all add: go_to_jail_def adjust_money_def advance_to_go_def Let_def)

lemma num_players_card_handling:
  "num_players (fst (card_handling v env p pos g)) = num_players env"
  by (simp add: card_handling_def Let_def split_def num_players_apply_effect)

lemma num_players_roll_and_move:
  "num_players (fst (roll_and_move env p prev d)) = num_players env"
  by (simp add: roll_and_move_def Let_def)

lemma inv_position: "env_inv env \<Longrightarrow> 0 \<le> p \<Longrightarrow> p < num_players env \<Longrightarrow>
   0 \<le> positions env ! nat p \<and> positions env ! nat p < 40"
  by (simp add: inv_defs)

lemma card_handling_pos:
  assumes "env_inv env" "0 \<le> pos" "pos < 40" "0 \<le> p" "p < num_players env"
  shows "0 \<le> fst (snd (snd (snd (snd (card_handling v env p pos g))))) \<and>
         fst (snd (snd (snd (snd (card_handling v env p pos g))))) < 40"
proof -
  have "env_inv (fst (apply_effect c env p))" for c
    using assms(1) by (rule inv_apply_effect)
  then have "0 \<le> positions (fst (apply_effect c env p)) ! nat p \<and>
             positions (fst (apply_effect c env p)) ! nat p < 40" for c
    using assms(4,5) by (simp add: inv_position num_players_apply_effect)
  then show ?thesis using assms(2,3)
    by (simp add: card_handling_def Let_def split_def)
qed

lemma roll_and_move_landed:
  assumes "board_size env = 40" "0 \<le> prev" "0 \<le> d"
  shows "0 \<le> fst (snd (roll_and_move env p prev d)) \<and> fst (snd (roll_and_move env p prev d)) < 40"
  using assms by (simp add: roll_and_move_def Let_def smod_nonneg)

lemma inv_normal_turn:
  assumes "env_inv env" "0 \<le> p" "p < num_players env" "0 \<le> prev"
  shows "env_inv (fst (normal_turn v env p action prev mb crc0 fee0 g))"
proof -
  define d where "d = int (fst (rand g) mod 6) + 1 + (int (fst (rand (snd (rand g))) mod 6) + 1)"
  define g2 where "g2 = snd (rand (snd (rand g)))"
  define m where "m = roll_and_move env p prev d"
  define c where "c = card_handling v (fst m) p (fst (snd m)) g2"
  define pos where "pos = fst (snd (snd (snd (snd c))))"
  define q where "q = process_square v (fst c) p pos action (fst (snd (snd (snd c)))) (fst (snd (snd c)))"
  have d0: "0 \<le> d" by (simp add: d_def)
  have bs: "board_size env = 40" using assms(1) by (simp add: inv_defs)
  have i1: "env_inv (fst m)" unfolding m_def using assms(1,4) d0 by (rule inv_roll_and_move)
  have l1: "0 \<le> fst (snd m) \<and> fst (snd m) < 40"
    unfolding m_def using bs assms(4) d0 by (rule roll_and_move_landed)
  have n1: "p < num_players (fst m)" using assms(3) by (simp add: m_def num_players_roll_and_move)
  have i2: "env_inv (fst c)" unfolding c_def using i1 by (rule inv_card_handling)
  have p2: "0 \<le> pos \<and> pos < 40" unfolding pos_def c_def
    using i1 l1 assms(2) n1 by (simp add: card_handling_pos)
  have n2: "p < num_players (fst c)" using n1 by (simp add: c_def num_players_card_handling)
  have i3: "env_inv (fst q)" unfolding q_def using i2 p2 assms(2) n2 by (simp add: inv_process_square)
  have i4: "env_inv (fst (check_bankruptcy (fst q) p))" using i3 by (rule inv_check_bankruptcy)
  show ?thesis
    unfolding normal_turn_def Let_def split_def
    using i4 unfolding q_def pos_def c_def m_def g2_def d_def
    by (simp add: inv_finalize_step)
qed

lemma inv_jail_logic_Inr:
  "env_inv env \<Longrightarrow> jail_logic v env p a pp mb g = Inr (env1, crc, fee, g1) \<Longrightarrow>
     env_inv env1 \<and> num_players env1 = num_players env \<and> positions env1 = positions env"
  by (auto simp add: jail_logic_def Let_def split_def inv_defs split: if_splits)

lemma inv_jail_logic_Inl:
  "env_inv env \<Longrightarrow> jail_logic v env p a pp mb g = Inl r \<Longrightarrow> env_inv (fst r)"
  by (auto simp add: jail_logic_def Let_def split_def inv_jail_turn_ends inv_jail_counters
      split: if_splits)

lemma inv_step: "env_inv env \<Longrightarrow> env_inv (fst (step_monopoly_env_in v env action g))"
proof -
  assume inv: "env_inv env"
  have p: "0 \<le> current_player env" "current_player env < num_players env"
    using inv by (simp_all add: inv_defs)
  have pos: "0 \<le> positions env ! nat (current_player env)"
    using inv p by (simp add: inv_position)
  show ?thesis
    using inv p pos
    by (auto simp add: step_monopoly_env_in_def Let_def inv_normal_turn
        dest: inv_jail_logic_Inl inv_jail_logic_Inr split: sum.splits)
qed

lemma reachable_inv: "reachable env \<Longrightarrow> env_inv env"
  by (induction rule: reachable.induct) (simp_all add: create_inv inv_reset inv_step)

lemma inv_lengths:
  "env_inv env \<Longrightarrow> length (positions env) = 8 \<and> length (money env) = 8 \<and>
     length (in_jail env) = 8 \<and> length (jail_counters env) = 8 \<and> length (properties env) = 40"
  by (simp add: inv_defs)

lemma inv_player_lt: "env_inv env \<Longrightarrow> p < num_players env \<Longrightarrow> nat p < 8"
  by (auto simp add: inv_defs)

lemma inv_current_player:
  "env_inv env \<Longrightarrow> 0 \<le> current_player env \<and> current_player env < num_players env \<and>
     nat (current_player env) < 8"
  by (auto simp add: inv_defs)

lemma inv_config:
  "env_inv env \<Longrightarrow> board_size env = 40 \<and> jail_position env = 10 \<and>
     go_to_jail_position env = 30 \<and> jail_turns env = 3"
  by (simp add: inv_defs)

section \<open>The hash tables implement maps\<close>

lemma state_tuple_eq: "compare_state_tuples (s1 :: StateTuple) s2 \<longleftrightarrow> s1 = s2"
  by (cases s1, cases s2) (auto simp add: compare_state_tuples_def)

lemma visited_key_eq: "compare_visited_keys (k1 :: VisitedKey) k2 \<longleftrightarrow> k1 = k2"
  by (cases k1, cases k2) (auto simp add: compare_visited_keys_def state_tuple_eq)

lemma word_mod_bound:
  assumes "0 < n" "n < 2 ^ 31"
  shows "unat ((x :: 32 word) mod word_of_int n) < nat n"
proof -
  have u: "unat (word_of_int n :: 32 word) = nat n"
    using assms by (simp add: unat_eq_nat_uint uint_word_of_int take_bit_int_eq_self)
  have "(word_of_int n :: 32 word) \<noteq> 0"
    using u assms by (metis nat_0_iff not_less unat_0 order_less_irrefl)
  then have "x mod word_of_int n < word_of_int n"
    by (simp add: word_mod_less_divisor word_neq_0_conv)
  then show ?thesis using u by (simp add: word_less_nat_alt)
qed

lemma hash_state_tuple_bound:
  "0 < n \<Longrightarrow> n < 2 ^ 31 \<Longrightarrow> hash_state_tuple k n < nat n"
  by (simp add: hash_state_tuple_def Let_def word_mod_bound)

lemma hash_visited_key_bound:
  "0 < n \<Longrightarrow> n < 2 ^ 31 \<Longrightarrow> hash_visited_key k n < nat n"
  by (simp add: hash_visited_key_def Let_def word_mod_bound)


lemma find_in_chain_Some:
  "find_in_chain k chain = Some j \<Longrightarrow> j < length chain \<and> key (chain ! j) = k"
proof (induction chain arbitrary: j)
  case Nil then show ?case by simp
next
  case (Cons e es)
  show ?case
  proof (cases "compare_state_tuples (key e) k")
    case True then show ?thesis using Cons.prems by (simp add: state_tuple_eq)
  next
    case False
    then obtain j' where j': "find_in_chain k es = Some j'" "j = Suc j'"
      using Cons.prems by auto
    then show ?thesis using Cons.IH [of j'] by simp
  qed
qed

lemma find_in_chain_update:
  "j < length chain \<Longrightarrow> key e = key (chain ! j) \<Longrightarrow>
   find_in_chain k (chain[j := e]) = find_in_chain k chain"
proof (induction chain arbitrary: j)
  case Nil then show ?case by simp
next
  case (Cons x xs)
  then show ?case by (cases j) simp_all
qed

lemma ht_wf_entry:
  "ht_wf ht \<Longrightarrow> i < length (ht_table ht) \<Longrightarrow> j < length (ht_table ht ! i) \<Longrightarrow>
   length (qvalues (ht_table ht ! i ! j)) = 2"
  by (simp add: ht_wf_def list_all_length)

lemma ht_wf_chain:
  "ht_wf ht \<Longrightarrow> i < length (ht_table ht) \<Longrightarrow>
   list_all (\<lambda>e. length (qvalues e) = 2) (ht_table ht ! i)"
  unfolding ht_wf_def list_all_iff using nth_mem by blast

lemma ht_wf_hash: "ht_wf ht \<Longrightarrow> hash_state_tuple k (ht_size ht) < length (ht_table ht)"
  by (simp add: ht_wf_def hash_state_tuple_bound)

lemma ht_wf_update:
  assumes "ht_wf ht" "i < length (ht_table ht)" "list_all (\<lambda>e. length (qvalues e) = 2) chain"
  shows "ht_wf (ht\<lparr>ht_table := (ht_table ht)[i := chain]\<rparr>)"
  using assms by (auto simp add: ht_wf_def list_all_length nth_list_update)

lemma ht_wf_count: "ht_wf (ht\<lparr>ht_count := c\<rparr>) = ht_wf ht"
  by (simp add: ht_wf_def)

lemma q_data_count: "q_data (ht\<lparr>ht_count := c\<rparr>) k a = q_data ht k a"
  by (simp add: q_data_def split: option.splits)

lemma find_or_create_spec:
  assumes wf: "ht_wf ht" and a: "a < 2"
  shows "ht_wf (fst (find_or_create_q_entry ht k))"
    and "q_data (fst (find_or_create_q_entry ht k)) k' a = q_data ht k' a"
    and "fst (snd (find_or_create_q_entry ht k)) = hash_state_tuple k (ht_size ht)"
    and "ht_size (fst (find_or_create_q_entry ht k)) = ht_size ht"
    and "find_in_chain k (ht_table (fst (find_or_create_q_entry ht k)) ! hash_state_tuple k (ht_size ht))
           = Some (snd (snd (find_or_create_q_entry ht k)))"
proof -
  let ?i = "hash_state_tuple k (ht_size ht)"
  have i: "?i < length (ht_table ht)" using wf by (rule ht_wf_hash)
  show "fst (snd (find_or_create_q_entry ht k)) = ?i"
    by (simp add: find_or_create_q_entry_def Let_def split: option.splits)
  show "ht_size (fst (find_or_create_q_entry ht k)) = ht_size ht"
    by (simp add: find_or_create_q_entry_def Let_def split: option.splits)
  show "find_in_chain k (ht_table (fst (find_or_create_q_entry ht k)) ! ?i)
           = Some (snd (snd (find_or_create_q_entry ht k)))"
    using i by (simp add: find_or_create_q_entry_def Let_def state_tuple_eq split: option.splits)
  show "ht_wf (fst (find_or_create_q_entry ht k))"
  proof (cases "find_in_chain k (ht_table ht ! ?i)")
    case (Some j) then show ?thesis using wf by (simp add: find_or_create_q_entry_def Let_def)
  next
    case None
    have "list_all (\<lambda>e. length (qvalues e) = 2)
            (\<lparr>key = k, qvalues = [zero_qvalue, zero_qvalue]\<rparr> # ht_table ht ! ?i)"
      using ht_wf_chain [OF wf i] by simp
    from ht_wf_update [OF wf i this] show ?thesis
      using None by (simp add: find_or_create_q_entry_def Let_def ht_wf_def)
  qed
  show "q_data (fst (find_or_create_q_entry ht k)) k' a = q_data ht k' a"
  proof (cases "find_in_chain k (ht_table ht ! ?i)")
    case (Some j) then show ?thesis by (simp add: find_or_create_q_entry_def Let_def)
  next
    case None
    have t: "ht_table (fst (find_or_create_q_entry ht k)) =
               (ht_table ht)[?i := \<lparr>key = k, qvalues = [zero_qvalue, zero_qvalue]\<rparr> # ht_table ht ! ?i]"
      and sz: "ht_size (fst (find_or_create_q_entry ht k)) = ht_size ht"
      using None by (simp_all add: find_or_create_q_entry_def Let_def)
    show ?thesis
    proof (cases "hash_state_tuple k' (ht_size ht) = ?i")
      case False
      then show ?thesis unfolding q_data_def t sz by (simp cong: option.case_cong)
    next
      case True
      show ?thesis
      proof (cases "k' = k")
        case True
        then show ?thesis unfolding q_data_def t sz using None i a
          by (auto simp add: state_tuple_eq less_2_cases_iff)
      next
        case neq: False
        then show ?thesis unfolding q_data_def t sz using True i
          by (cases "find_in_chain k' (ht_table ht ! ?i)") (simp_all add: state_tuple_eq)
      qed
    qed
  qed
qed

lemma store_entry_spec:
  assumes wf: "ht_wf ht"
    and j: "find_in_chain k (ht_table ht ! hash_state_tuple k (ht_size ht)) = Some j"
    and e: "key e = k" "length (qvalues e) = 2"
  shows "ht_wf (store_entry ht (hash_state_tuple k (ht_size ht), j) e)"
    and "q_data (store_entry ht (hash_state_tuple k (ht_size ht), j) e) k' a =
           (if k' = k then qvalues e ! a else q_data ht k' a)"
proof -
  let ?i = "hash_state_tuple k (ht_size ht)"
  let ?chain = "ht_table ht ! ?i"
  have i: "?i < length (ht_table ht)" using wf by (rule ht_wf_hash)
  from find_in_chain_Some [OF j] have jl: "j < length ?chain" and kj: "key (?chain ! j) = k"
    by simp_all
  have "list_all (\<lambda>e. length (qvalues e) = 2) (?chain[j := e])"
    using ht_wf_chain [OF wf i] e(2) set_update_subset_insert [of ?chain j e]
    unfolding list_all_iff by blast
  from ht_wf_update [OF wf i this]
  show "ht_wf (store_entry ht (?i, j) e)" by (simp add: store_entry_def)
  have same: "find_in_chain k' (?chain[j := e]) = find_in_chain k' ?chain" for k'
    using jl kj e(1) by (simp add: find_in_chain_update)
  have t: "ht_table (store_entry ht (?i, j) e) = (ht_table ht)[?i := ?chain[j := e]]"
    and sz: "ht_size (store_entry ht (?i, j) e) = ht_size ht"
    by (simp_all add: store_entry_def)
  show "q_data (store_entry ht (?i, j) e) k' a = (if k' = k then qvalues e ! a else q_data ht k' a)"
  proof (cases "hash_state_tuple k' (ht_size ht) = ?i")
    case False
    then have "k' \<noteq> k" by auto
    then show ?thesis unfolding q_data_def t sz using False by (simp cong: option.case_cong)
  next
    case True
    show ?thesis
    proof (cases "k' = k")
      case True
      then show ?thesis unfolding q_data_def t sz using i j jl by (simp add: same)
    next
      case neq: False
      show ?thesis
      proof (cases "find_in_chain k' ?chain")
        case None
        then show ?thesis unfolding q_data_def t sz using True neq i by (simp add: same)
      next
        case (Some j')
        from find_in_chain_Some [OF Some] kj neq have "j' \<noteq> j" by auto
        then show ?thesis unfolding q_data_def t sz using True neq i Some by (simp add: same)
      qed
    qed
  qed
qed

lemma visited_in_chain_set: "visited_in_chain k chain \<longleftrightarrow> k \<in> set chain"
  by (induction chain) (auto simp add: visited_key_eq)

lemma vs_wf_hash: "vs_wf vs \<Longrightarrow> hash_visited_key k (vs_size vs) < length (vs_table vs)"
  by (simp add: vs_wf_def hash_visited_key_bound)

lemma check_and_add_visited_spec:
  assumes wf: "vs_wf vs"
  shows "fst (check_and_add_visited vs k) = vs_mem vs k"
    and "vs_wf (snd (check_and_add_visited vs k))"
    and "vs_mem (snd (check_and_add_visited vs k)) k' = (vs_mem vs k' \<or> k' = k)"
proof -
  have i: "hash_visited_key k (vs_size vs) < length (vs_table vs)" using wf by (rule vs_wf_hash)
  show "fst (check_and_add_visited vs k) = vs_mem vs k"
    by (simp add: check_and_add_visited_def Let_def vs_mem_def)
  show "vs_wf (snd (check_and_add_visited vs k))"
    using wf by (simp add: check_and_add_visited_def Let_def vs_wf_def)
  show "vs_mem (snd (check_and_add_visited vs k)) k' = (vs_mem vs k' \<or> k' = k)"
    using i
    by (auto simp add: check_and_add_visited_def Let_def vs_mem_def visited_in_chain_set
                       nth_list_update)
qed

lemma create_visited_set_spec:
  "vs_wf (create_visited_set VISITED_SET_INITIAL_SIZE)"
  "\<not> vs_mem (create_visited_set VISITED_SET_INITIAL_SIZE) k"
proof -
  show "vs_wf (create_visited_set VISITED_SET_INITIAL_SIZE)"
    by (simp add: vs_wf_def create_visited_set_def VISITED_SET_INITIAL_SIZE_def)
  have "hash_visited_key k 256 < nat 256" by (rule hash_visited_key_bound) simp_all
  then show "\<not> vs_mem (create_visited_set VISITED_SET_INITIAL_SIZE) k"
    by (simp add: vs_mem_def create_visited_set_def VISITED_SET_INITIAL_SIZE_def)
qed

lemma qvalue_data_eq:
  "(d\<lparr>sum_returns := S, count := C\<rparr>)\<lparr>q_value := Q\<rparr> =
     \<lparr>sum_returns = S, count = C, q_value = Q\<rparr>"
  by (cases d) simp

lemma recorded_spec:
  assumes wf: "ht_wf qt" and a: "a < 2" and a': "a' < 2"
  shows "ht_wf (recorded qt s a G1)"
    and "q_data (recorded qt s a G1) k' a' =
           (if k' = s \<and> a' = a then record_return (q_data qt s a) G1 else q_data qt k' a')"
proof -
  define qt1 where "qt1 = fst (find_or_create_q_entry qt s)"
  define j where "j = snd (snd (find_or_create_q_entry qt s))"
  define i where "i = hash_state_tuple s (ht_size qt)"
  define entry where "entry = ht_table qt1 ! i ! j"
  have wf1: "ht_wf qt1" unfolding qt1_def using wf a by (rule find_or_create_spec(1))
  have sz: "ht_size qt1 = ht_size qt" unfolding qt1_def using wf a by (rule find_or_create_spec(4))
  have ptr: "snd (find_or_create_q_entry qt s) = (i, j)"
    unfolding i_def j_def using find_or_create_spec(3) [OF wf a, of s] by (simp add: prod_eq_iff)
  have fj: "find_in_chain s (ht_table qt1 ! hash_state_tuple s (ht_size qt1)) = Some j"
    unfolding sz unfolding qt1_def j_def using wf a by (rule find_or_create_spec(5))
  have same: "q_data qt1 k b = q_data qt k b" if "b < 2" for k b
    unfolding qt1_def using wf that by (rule find_or_create_spec(2))
  have il: "i < length (ht_table qt1)" unfolding i_def sz [symmetric] using wf1 by (rule ht_wf_hash)
  from find_in_chain_Some [OF fj] have jl: "j < length (ht_table qt1 ! i)" and ke: "key entry = s"
    by (simp_all add: entry_def i_def sz)
  have len: "length (qvalues entry) = 2" unfolding entry_def using wf1 il jl by (rule ht_wf_entry)
  have d: "qvalues entry ! b = q_data qt s b" if "b < 2" for b
    using same [OF that, of s] fj by (simp add: q_data_def entry_def i_def sz)
  define e' where "e' = entry\<lparr>qvalues := (qvalues entry)[a := record_return (q_data qt s a) G1]\<rparr>"
  have r: "recorded qt s a G1 = store_entry qt1 (hash_state_tuple s (ht_size qt1), j) e'"
    by (simp add: recorded_def Let_def split_def ptr qt1_def [symmetric] entry_at_def
                  entry_def [symmetric] e'_def qvalue_data_eq record_return_def d [OF a] sz
                  i_def [symmetric])
  have ke': "key e' = s" "length (qvalues e') = 2" using ke len by (simp_all add: e'_def)
  show "ht_wf (recorded qt s a G1)" unfolding r using wf1 fj ke' by (rule store_entry_spec(1))
  have "q_data (recorded qt s a G1) k' a' = (if k' = s then qvalues e' ! a' else q_data qt1 k' a')"
    unfolding r using wf1 fj ke' by (rule store_entry_spec(2))
  then show "q_data (recorded qt s a G1) k' a' =
           (if k' = s \<and> a' = a then record_return (q_data qt s a) G1 else q_data qt k' a')"
    using same [OF a'] d [OF a'] a len by (simp add: e'_def nth_list_update)
qed

lemma update_loop_Cons:
  "update_loop (st # rest) (G, visited, qt) =
     (if vs_mem visited \<lparr>vk_state = es_state st, vk_action = es_action st\<rparr>
      then update_loop rest (G + es_reward st, visited, qt)
      else update_loop rest (G + es_reward st,
             snd (check_and_add_visited visited \<lparr>vk_state = es_state st, vk_action = es_action st\<rparr>),
             recorded qt (es_state st) (nat (es_action st)) (G + es_reward st)))"
  by (simp add: recorded_def Let_def split_def vs_mem_def check_and_add_visited_def)

lemma update_loop_spec:
  assumes "ht_wf qt" "vs_wf vs" "actions_ok rs" "a = 0 \<or> a = 1"
  shows "ht_wf (snd (snd (update_loop rs (G, vs, qt)))) \<and>
         q_data (snd (snd (update_loop rs (G, vs, qt)))) k (nat a) =
           (if vs_mem vs \<lparr>vk_state = k, vk_action = a\<rparr> then q_data qt k (nat a)
            else visit_update (q_data qt k (nat a)) (first_visit_return G rs k a))"
  using assms
proof (induction rs arbitrary: G vs qt)
  case Nil
  then show ?case by (simp add: visit_update_def)
next
  case (Cons st rest)
  let ?key = "\<lparr>vk_state = es_state st, vk_action = es_action st\<rparr>"
  let ?G1 = "G + es_reward st"
  have act: "es_action st = 0 \<or> es_action st = 1" and rest: "actions_ok rest"
    using Cons.prems(3) by (simp_all add: actions_ok_def)
  have an: "nat a < 2" "nat (es_action st) < 2" using Cons.prems(4) act by auto
  have neq: "nat a = nat (es_action st) \<longleftrightarrow> a = es_action st" using Cons.prems(4) act by auto
  show ?case
  proof (cases "vs_mem vs ?key")
    case True
    have "update_loop (st # rest) (G, vs, qt) = update_loop rest (?G1, vs, qt)"
      using True by (simp only: update_loop_Cons if_True)
    moreover note Cons.IH [OF Cons.prems(1) Cons.prems(2) rest Cons.prems(4), of ?G1]
    ultimately show ?thesis using True by auto
  next
    case False
    let ?vs1 = "snd (check_and_add_visited vs ?key)"
    let ?qt1 = "recorded qt (es_state st) (nat (es_action st)) ?G1"
    have eq: "update_loop (st # rest) (G, vs, qt) = update_loop rest (?G1, ?vs1, ?qt1)"
      using False by (simp only: update_loop_Cons if_False)
    have wf1: "ht_wf ?qt1" using Cons.prems(1) an(2) an(1) by (rule recorded_spec(1))
    have vwf1: "vs_wf ?vs1" using Cons.prems(2) by (rule check_and_add_visited_spec(2))
    have mem1: "vs_mem ?vs1 k' = (vs_mem vs k' \<or> k' = ?key)" for k'
      using Cons.prems(2) by (rule check_and_add_visited_spec(3))
    have q1: "q_data ?qt1 k (nat a) =
        (if k = es_state st \<and> a = es_action st then record_return (q_data qt (es_state st) (nat a)) ?G1
         else q_data qt k (nat a))"
      using recorded_spec(2) [OF Cons.prems(1) an(2) an(1), of "es_state st" ?G1 k] neq by auto
    note IH = Cons.IH [OF wf1 vwf1 rest Cons.prems(4), of ?G1]
    show ?thesis
    proof (cases "k = es_state st \<and> a = es_action st")
      case True
      have q: "q_data ?qt1 k (nat a) = record_return (q_data qt k (nat a)) ?G1"
        using q1 True by simp
      have fv: "first_visit_return G (st # rest) k a = Some ?G1" using True by simp
      have m: "vs_mem ?vs1 \<lparr>vk_state = k, vk_action = a\<rparr>" "\<not> vs_mem vs \<lparr>vk_state = k, vk_action = a\<rparr>"
        using True False by (simp_all add: mem1)
      from IH show ?thesis unfolding eq q fv by (simp only: m if_True if_False visit_update_def option.case)
    next
      case neq2: False
      have q: "q_data ?qt1 k (nat a) = q_data qt k (nat a)" using q1 neq2 by simp
      have fv: "first_visit_return G (st # rest) k a = first_visit_return ?G1 rest k a"
        using neq2 by auto
      have m: "vs_mem ?vs1 \<lparr>vk_state = k, vk_action = a\<rparr> = vs_mem vs \<lparr>vk_state = k, vk_action = a\<rparr>"
        using neq2 by (auto simp add: mem1)
      from IH show ?thesis unfolding eq q fv m .
    qed
  qed
qed

lemma first_visit_return_append:
  "\<not> occurs k a xs \<Longrightarrow>
   first_visit_return G (xs @ ys) k a = first_visit_return (G + sum_list (map es_reward xs)) ys k a"
  by (induction xs arbitrary: G) (auto simp add: algebra_simps occurs_def)

lemma first_visit_return_backward:
  assumes "\<not> occurs (es_state st) (es_action st) post"
  shows "first_visit_return 0 (rev (pre @ st # post)) (es_state st) (es_action st) =
           Some (es_reward st + sum_list (map es_reward post))"
proof -
  have "\<not> occurs (es_state st) (es_action st) (rev post)"
    using assms by (simp add: occurs_def list_ex_iff)
  from first_visit_return_append [OF this, of 0 "st # rev pre"]
  show ?thesis by (simp add: rev_map [symmetric] add.commute)
qed

lemma first_visit_return_absent:
  "\<not> occurs k a xs \<Longrightarrow> first_visit_return G xs k a = None"
  by (induction xs arbitrary: G) (auto simp add: occurs_def)

lemma update_mc_spec:
  assumes "ht_wf (q_table agent)" "actions_ok history" "a = 0 \<or> a = 1"
  shows "ht_wf (q_table (update_mc agent history))"
    and "q_data (q_table (update_mc agent history)) k (nat a) =
           visit_update (q_data (q_table agent) k (nat a)) (first_visit_return 0 (rev history) k a)"
proof -
  have r: "actions_ok (rev history)" using assms(2) by (simp add: actions_ok_def list_all_iff)
  from update_loop_spec [OF assms(1) create_visited_set_spec(1) r assms(3), of 0 k]
  show "ht_wf (q_table (update_mc agent history))"
    and "q_data (q_table (update_mc agent history)) k (nat a) =
           visit_update (q_data (q_table agent) k (nat a)) (first_visit_return 0 (rev history) k a)"
    by (simp_all add: update_mc_def create_visited_set_spec(2))
qed


lemma updates_spec:
  assumes "ht_wf (q_table agent)" "list_all actions_ok episodes" "a = 0 \<or> a = 1"
  shows "ht_wf (q_table (updates agent episodes)) \<and>
         sum_returns (q_data (q_table (updates agent episodes)) k (nat a)) =
           sum_returns (q_data (q_table agent) k (nat a)) + sum_list (recorded_returns episodes k a) \<and>
         count (q_data (q_table (updates agent episodes)) k (nat a)) =
           count (q_data (q_table agent) k (nat a)) + int (length (recorded_returns episodes k a)) \<and>
         (if recorded_returns episodes k a = []
          then q_data (q_table (updates agent episodes)) k (nat a) = q_data (q_table agent) k (nat a)
          else q_value (q_data (q_table (updates agent episodes)) k (nat a)) =
                 sum_returns (q_data (q_table (updates agent episodes)) k (nat a)) /
                 real_of_int (count (q_data (q_table (updates agent episodes)) k (nat a))))"
  using assms(1,2)
proof (induction episodes arbitrary: agent)
  case Nil
  then show ?case by (simp add: updates_def recorded_returns_def map_filter_simps)
next
  case (Cons h rest)
  let ?agent1 = "update_mc agent h"
  have h: "actions_ok h" and rest: "list_all actions_ok rest" using Cons.prems(2) by simp_all
  have wf1: "ht_wf (q_table ?agent1)" using Cons.prems(1) h assms(3) by (rule update_mc_spec(1))
  have d1: "q_data (q_table ?agent1) k (nat a) =
              visit_update (q_data (q_table agent) k (nat a)) (first_visit_return 0 (rev h) k a)"
    using Cons.prems(1) h assms(3) by (rule update_mc_spec(2))
  have u: "updates agent (h # rest) = updates ?agent1 rest" by (simp add: updates_def)
  note IH = Cons.IH [OF wf1 rest]
  show ?case
  proof (cases "first_visit_return 0 (rev h) k a")
    case None
    then have r: "recorded_returns (h # rest) k a = recorded_returns rest k a"
      by (simp add: recorded_returns_def map_filter_simps)
    have d: "q_data (q_table ?agent1) k (nat a) = q_data (q_table agent) k (nat a)"
      using d1 None by (simp add: visit_update_def)
    from IH show ?thesis unfolding u r d .
  next
    case (Some R)
    then have r: "recorded_returns (h # rest) k a = R # recorded_returns rest k a"
      by (simp add: recorded_returns_def map_filter_simps)
    have d: "q_data (q_table ?agent1) k (nat a) = record_return (q_data (q_table agent) k (nat a)) R"
      using d1 Some by (simp add: visit_update_def)
    show ?thesis
    proof (cases "recorded_returns rest k a = []")
      case True
      then show ?thesis using IH unfolding u r d by (simp add: record_return_def)
    next
      case False
      then show ?thesis using IH unfolding u r d by (simp add: record_return_def)
    qed
  qed
qed

lemma create_q_hash_table_spec:
  "ht_wf (create_q_hash_table Q_TABLE_INITIAL_SIZE)"
  "q_data (create_q_hash_table Q_TABLE_INITIAL_SIZE) k a = zero_qvalue"
proof -
  show "ht_wf (create_q_hash_table Q_TABLE_INITIAL_SIZE)"
    by (simp add: ht_wf_def create_q_hash_table_def Q_TABLE_INITIAL_SIZE_def list_all_length)
  have "hash_state_tuple k 1024 < nat 1024" by (rule hash_state_tuple_bound) simp_all
  then show "q_data (create_q_hash_table Q_TABLE_INITIAL_SIZE) k a = zero_qvalue"
    by (simp add: q_data_def create_q_hash_table_def Q_TABLE_INITIAL_SIZE_def)
qed

lemma select_action_mc_pass:
  "\<not> purchase_decision env \<Longrightarrow> select_action_mc agent st env g = (0, agent, g)"
  unfolding select_action_mc_def purchase_decision_def Let_def by auto

lemma entry_at_find_or_create:
  assumes "ht_wf ht" "a < 2"
  shows "qvalues (entry_at (fst (find_or_create_q_entry ht k)) (snd (find_or_create_q_entry ht k))) ! a
           = q_data ht k a"
proof -
  let ?r = "find_or_create_q_entry ht k"
  have "q_data (fst ?r) k a = q_data ht k a" using assms by (rule find_or_create_spec(2))
  moreover have "q_data (fst ?r) k a = qvalues (entry_at (fst ?r) (snd ?r)) ! a"
    using find_or_create_spec(3,4,5) [OF assms, of k]
    by (simp add: q_data_def entry_at_def)
  ultimately show ?thesis by simp
qed

lemma select_action_mc_choice:
  assumes "purchase_decision env" "ht_wf (q_table agent)"
  shows "(fst (select_action_mc agent st env g), snd (snd (select_action_mc agent st env g))) =
           spec_epsilon_greedy (epsilon agent) (q_value (q_data (q_table agent) st 0))
             (q_value (q_data (q_table agent) st 1)) g"
    and "q_data (q_table (fst (snd (select_action_mc agent st env g)))) k 0 = q_data (q_table agent) k 0"
    and "q_data (q_table (fst (snd (select_action_mc agent st env g)))) k 1 = q_data (q_table agent) k 1"
    and "epsilon (fst (snd (select_action_mc agent st env g))) = epsilon agent"
proof -
  have b: "(if \<not> in_jail env ! nat (current_player env) \<and>
          0 \<le> positions env ! nat (current_player env) \<and>
          positions env ! nat (current_player env) < board_size env
       then 0 < price (properties env ! nat (positions env ! nat (current_player env))) \<and>
            owner (properties env ! nat (positions env ! nat (current_player env))) = - 1 \<and>
            price (properties env ! nat (positions env ! nat (current_player env)))
              \<le> money env ! nat (current_player env)
       else False) = True"
    using assms(1) by (simp add: purchase_decision_def)
  have q: "qvalues (entry_at (fst (find_or_create_q_entry (q_table agent) st))
                     (snd (find_or_create_q_entry (q_table agent) st))) ! a
             = q_data (q_table agent) st a" if "a < 2" for a
    using assms(2) that by (rule entry_at_find_or_create)
  have q0: "qvalues (entry_at (fst (find_or_create_q_entry (q_table agent) st))
                     (snd (find_or_create_q_entry (q_table agent) st))) ! 0
             = q_data (q_table agent) st 0" by (rule q) simp
  have q1: "qvalues (entry_at (fst (find_or_create_q_entry (q_table agent) st))
                     (snd (find_or_create_q_entry (q_table agent) st))) ! 1
             = q_data (q_table agent) st 1" by (rule q) simp
  have same: "q_data (fst (find_or_create_q_entry (q_table agent) st)) k a = q_data (q_table agent) k a"
    if "a < 2" for a
    using assms(2) that by (rule find_or_create_spec(2))
  have s: "select_action_mc agent st env g =
     (let (r, g1) = rand g in
        if real r / real RAND_MAX < epsilon agent then (let (r2, g2) = rand g1 in (int (r2 mod 2), agent, g2))
        else (let qt = fst (find_or_create_q_entry (q_table agent) st);
                  q_val_0 = q_value (q_data (q_table agent) st 0);
                  q_val_1 = q_value (q_data (q_table agent) st 1)
              in if \<bar>q_val_0 - q_val_1\<bar> < 1 / 10 ^ 9
                 then (let (r2, g2) = rand g1 in (int (r2 mod 2), agent\<lparr>q_table := qt\<rparr>, g2))
                 else if q_val_1 > q_val_0 then (1, agent\<lparr>q_table := qt\<rparr>, g1)
                 else (0, agent\<lparr>q_table := qt\<rparr>, g1)))"
    by (simp only: select_action_mc_def Let_def split_def b not_True_eq_False if_False q0 q1)
  show "(fst (select_action_mc agent st env g), snd (snd (select_action_mc agent st env g))) =
           spec_epsilon_greedy (epsilon agent) (q_value (q_data (q_table agent) st 0))
             (q_value (q_data (q_table agent) st 1)) g"
    unfolding s spec_epsilon_greedy_def by (simp add: Let_def split_def)
  show "q_data (q_table (fst (snd (select_action_mc agent st env g)))) k 0 = q_data (q_table agent) k 0"
    unfolding s using same [of 0] by (simp add: Let_def split_def)
  show "q_data (q_table (fst (snd (select_action_mc agent st env g)))) k 1 = q_data (q_table agent) k 1"
    unfolding s using same [of 1] by (simp add: Let_def split_def)
  show "epsilon (fst (snd (select_action_mc agent st env g))) = epsilon agent"
    unfolding s by (simp add: Let_def split_def)
qed

lemma select_action_mc_wf:
  assumes "ht_wf (q_table agent)"
  shows "ht_wf (q_table (fst (snd (select_action_mc agent st env g))))"
proof -
  have "ht_wf (fst (find_or_create_q_entry (q_table agent) st))"
    using assms by (rule find_or_create_spec(1) [where a = 0]) simp
  then show ?thesis using assms
    unfolding select_action_mc_def Let_def split_def by simp
qed

lemma trained_wf: "trained agent \<Longrightarrow> ht_wf (q_table agent)"
proof (induction rule: trained.induct)
  case (created n eps)
  show ?case by (simp add: create_monte_carlo_agent_def create_q_hash_table_spec(1))
next
  case (selected agent st env g)
  show ?case using selected.IH by (rule select_action_mc_wf)
next
  case (updated agent h)
  show ?case using updated.IH updated.hyps(2) by (rule update_mc_spec(1) [where a = 0]) simp
qed

section \<open>Construction\<close>




section \<open>A step on a terminal state\<close>

text \<open>
  Claim C10: a step on a state whose terminal flag is set leaves the environment as it is
  (no money, position, ownership, jail or counter change, the current player stays), draws
  nothing from the random generator, and returns reward 0 with the terminal flag set. This
  holds for the step function of the sequential program and for the host copy in the
  parallelised file (\<open>v\<close> is either). The only thing written is the caller's observation
  buffer.\<close>

theorem step_terminal_unchanged:
  assumes "env_done env"
  shows "step_monopoly_env_in v env action g =
           (env, \<lparr>res_reward = 0, res_done = True,
                   res_log = (last_log env)\<lparr>log_step := steps_taken env\<rparr>\<rparr>,
            get_observation env, g)"
  using assms by (simp add: step_monopoly_env_in_def)

theorem step_terminal_unchanged_witness:
  "env_done terminal_env \<and>
   step_monopoly_env_in Sequential terminal_env 1 (\<lambda>n. 3) =
     (terminal_env, \<lparr>res_reward = 0, res_done = True,
        res_log = (last_log terminal_env)\<lparr>log_step := steps_taken terminal_env\<rparr>\<rparr>,
      get_observation terminal_env, \<lambda>n. 3) \<and>
   step_monopoly_env_in Parallelized terminal_env 1 (\<lambda>n. 3) =
     (terminal_env, \<lparr>res_reward = 0, res_done = True,
        res_log = (last_log terminal_env)\<lparr>log_step := steps_taken terminal_env\<rparr>\<rparr>,
      get_observation terminal_env, \<lambda>n. 3)"
proof -
  have h: "env_done terminal_env" by code_simp
  show ?thesis
    using h step_terminal_unchanged [OF h, of Sequential 1 "\<lambda>n. 3"]
      step_terminal_unchanged [OF h, of Parallelized 1 "\<lambda>n. 3"] by simp
qed

section \<open>House counts\<close>

text \<open>
  Claim C5: in every state reachable from a fresh or reset environment through step calls,
  the house count of every board square lies between 0 and 5, and it is 0 whenever the square
  is unowned.\<close>

theorem reachable_house_counts:
  assumes "reachable env"
  shows "length (properties env) = 40 \<and>
         (\<forall>i < length (properties env).
            0 \<le> houses (properties env ! i) \<and> houses (properties env ! i) \<le> 5 \<and>
            (owner (properties env ! i) = - 1 \<longrightarrow> houses (properties env ! i) = 0))"
  using reachable_inv [OF assms] by (simp add: inv_defs square_ok_def)

theorem reachable_house_counts_witness:
  "reachable (fst (step_monopoly_env_in Sequential (the (create_monopoly_env 2 1500 200)) 1 (\<lambda>n. n))) \<and>
   length (properties (fst (step_monopoly_env_in Sequential
              (the (create_monopoly_env 2 1500 200)) 1 (\<lambda>n. n)))) = 40 \<and>
   0 \<le> houses (properties (fst (step_monopoly_env_in Sequential
              (the (create_monopoly_env 2 1500 200)) 1 (\<lambda>n. n))) ! 3) \<and>
   houses (properties (fst (step_monopoly_env_in Sequential
              (the (create_monopoly_env 2 1500 200)) 1 (\<lambda>n. n))) ! 3) \<le> 5"
proof -
  have c: "create_monopoly_env 2 1500 200 = Some (the (create_monopoly_env 2 1500 200))"
    by (simp add: create_monopoly_env_def MAX_PLAYERS_def)
  have r: "reachable (fst (step_monopoly_env_in Sequential (the (create_monopoly_env 2 1500 200)) 1 (\<lambda>n. n)))"
    by (rule reachable.step, rule reachable.fresh, rule c)
  show ?thesis using r reachable_house_counts [OF r] by simp
qed

section \<open>Dice movement and the pass-GO credit\<close>




section \<open>Release from jail at the turn limit\<close>

lemma normal_turn_log:
  "dice_roll (res_log (fst (snd (normal_turn v e p a prev mb crc fee g)))) =
     int (g 0 mod 6) + 1 + (int (g 1 mod 6) + 1) \<and>
   landed_on_position (res_log (fst (snd (normal_turn v e p a prev mb crc fee g)))) =
     (prev + (int (g 0 mod 6) + 1 + (int (g 1 mod 6) + 1))) smod board_size e \<and>
   position_before (res_log (fst (snd (normal_turn v e p a prev mb crc fee g)))) = prev"
  by (simp add: normal_turn_def finalize_step_def create_log_entry_def Let_def split_def rand_def
      roll_and_move_def)

text \<open>
  Claim C7, amended: when the acting player is in jail, the jail counter reaches the turn
  limit and the two jail dice are not doubles, the player is released, 50 is debited, and the
  step goes on into the normal turn, which rolls a fresh pair of dice (the third and fourth
  draws of the generator): the log's dice total and landing square are those of the fresh pair,
  not of the jail pair.\<close>

theorem jail_turn_limit_release:
  assumes "env_inv env" "\<not> env_done env" "in_jail env ! nat (current_player env)"
    and "jail_turns env \<le> jail_counters env ! nat (current_player env) + 1"
    and "g 0 mod 6 \<noteq> g 1 mod 6"
  shows "step_monopoly_env_in v env action g =
           normal_turn v
             (env\<lparr>in_jail := (in_jail env)[nat (current_player env) := False],
                  jail_counters := (jail_counters env)[nat (current_player env) := 0],
                  money := (money env)[nat (current_player env) :=
                              money env ! nat (current_player env) - 50]\<rparr>)
             (current_player env) action (positions env ! nat (current_player env))
             (money env ! nat (current_player env)) (- 50) 50 (\<lambda>n. g (Suc (Suc n))) \<and>
         dice_roll (res_log (fst (snd (step_monopoly_env_in v env action g)))) =
           int (g 2 mod 6) + 1 + (int (g 3 mod 6) + 1) \<and>
         landed_on_position (res_log (fst (snd (step_monopoly_env_in v env action g)))) =
           (positions env ! nat (current_player env) + (int (g 2 mod 6) + 1 + (int (g 3 mod 6) + 1)))
             smod board_size env"
proof -
  let ?p = "current_player env"
  have len: "nat ?p < length (jail_counters env)"
    using assms(1) inv_current_player [of env] by (simp add: inv_lengths)
  have eq: "step_monopoly_env_in v env action g =
           normal_turn v
             (env\<lparr>in_jail := (in_jail env)[nat ?p := False],
                  jail_counters := (jail_counters env)[nat ?p := 0],
                  money := (money env)[nat ?p := money env ! nat ?p - 50]\<rparr>)
             ?p action (positions env ! nat ?p) (money env ! nat ?p) (- 50) 50 (\<lambda>n. g (Suc (Suc n)))"
    using assms(2-5) len
    by (simp add: step_monopoly_env_in_def jail_logic_def Let_def split_def rand_def)
  show ?thesis
    unfolding eq using normal_turn_log [of v _ ?p action _ _ "- 50" 50 "\<lambda>n. g (Suc (Suc n))"]
    by (simp add: numeral_2_eq_2 numeral_3_eq_3)
qed

lemma jail_release_env_inv: "env_inv jail_release_env"
  by code_simp

theorem jail_turn_limit_release_witness:
  "env_inv jail_release_env \<and> \<not> env_done jail_release_env \<and>
   in_jail jail_release_env ! nat (current_player jail_release_env) \<and>
   jail_turns jail_release_env \<le> jail_counters jail_release_env ! nat (current_player jail_release_env) + 1 \<and>
   jail_release_rng 0 mod 6 \<noteq> jail_release_rng 1 mod 6 \<and>
   dice_roll (res_log (fst (snd (step_monopoly_env_in Sequential jail_release_env 0 jail_release_rng)))) = 6 \<and>
   landed_on_position (res_log (fst (snd (step_monopoly_env_in Sequential jail_release_env 0 jail_release_rng)))) = 16"
proof -
  have h: "env_inv jail_release_env" "\<not> env_done jail_release_env"
    "in_jail jail_release_env ! nat (current_player jail_release_env)"
    "jail_turns jail_release_env \<le> jail_counters jail_release_env ! nat (current_player jail_release_env) + 1"
    "jail_release_rng 0 mod 6 \<noteq> jail_release_rng 1 mod 6"
    by code_simp+
  have v: "int (jail_release_rng 2 mod 6) + 1 + (int (jail_release_rng 3 mod 6) + 1) = 6"
    "positions jail_release_env ! nat (current_player jail_release_env) = 10"
    "board_size jail_release_env = 40"
    by code_simp+
  note t = jail_turn_limit_release [OF h, of Sequential 0]
  show ?thesis
    using h t [THEN conjunct2, THEN conjunct1] t [THEN conjunct2, THEN conjunct2] v
    by (simp add: signed_modulo_int_def)
qed

text \<open>
  Claim C7, as stated: movement uses the same non-double pair that was rolled in jail. In the
  state below the jail pair is 1 and 2 (total 3, which would land on square 13); the step
  moves by 6, the total of the next pair, and lands on square 16.\<close>

theorem jail_release_rerolls_the_dice:
  "in_jail jail_release_env ! nat (current_player jail_release_env) \<and>
   jail_turns jail_release_env \<le> jail_counters jail_release_env ! nat (current_player jail_release_env) + 1 \<and>
   int (jail_release_rng 0 mod 6) + 1 = 1 \<and> int (jail_release_rng 1 mod 6) + 1 = 2 \<and>
   positions jail_release_env ! nat (current_player jail_release_env) = 10 \<and>
   dice_roll (res_log (fst (snd (step_monopoly_env jail_release_env 0 jail_release_rng)))) = 6 \<and>
   landed_on_position (res_log (fst (snd (step_monopoly_env jail_release_env 0 jail_release_rng)))) = 16 \<and>
   positions (fst (step_monopoly_env jail_release_env 0 jail_release_rng)) ! 0 = 16 \<and>
   money (fst (step_monopoly_env jail_release_env 0 jail_release_rng)) ! 0 = 1450"
  by (intro conjI; code_simp)

section \<open>Rent\<close>

lemma init_price_special:
  "price (initialize_properties ! 30) = 0" "price (initialize_properties ! 4) = 0"
  "price (initialize_properties ! 38) = 0"
  by (simp_all add: initialize_properties_def non_property_def)

lemma rent_due_table:
  assumes "0 \<le> h" "h \<le> 5"
  shows "rent_due r h = r * [1, 5, 15, 45, 80, 125] ! nat h"
proof -
  from assms have "h = 0 \<or> h = 1 \<or> h = 2 \<or> h = 3 \<or> h = 4 \<or> h = 5" by arith
  then show ?thesis by (auto simp add: rent_due_def)
qed

lemma owned_square_facts:
  assumes "env_inv env" "0 \<le> pos" "pos < 40" "owner (properties env ! nat pos) \<noteq> - 1"
  shows "pos \<noteq> go_to_jail_position env \<and> get_fee_for_position pos = 0 \<and>
         0 < price (properties env ! nat pos) \<and>
         0 \<le> owner (properties env ! nat pos) \<and> owner (properties env ! nat pos) < num_players env \<and>
         0 \<le> houses (properties env ! nat pos) \<and> houses (properties env ! nat pos) \<le> 5"
proof -
  have sq: "square_ok (num_players env) (initialize_properties ! nat pos) (properties env ! nat pos)"
    using assms by (simp add: inv_square)
  then have pr: "0 < price (initialize_properties ! nat pos)"
    using assms(4) by (simp add: square_ok_def)
  have "pos \<noteq> 30" "pos \<noteq> 4" "pos \<noteq> 38"
    using pr init_price_special by auto
  then show ?thesis using sq assms(1,4) inv_config [of env]
    by (simp add: square_ok_def get_fee_for_position_def)
qed

lemma rent_payment_sequential:
  assumes "env_inv env" "0 \<le> p" "p < num_players env" "0 \<le> pos" "pos < 40"
    and "owner (properties env ! nat pos) \<noteq> - 1" "owner (properties env ! nat pos) \<noteq> p"
  shows "rent_due (rent (properties env ! nat pos)) (houses (properties env ! nat pos)) =
           rent (properties env ! nat pos) * [1, 5, 15, 45, 80, 125] ! nat (houses (properties env ! nat pos)) \<and>
         min (money env ! nat p) (rent_due (rent (properties env ! nat pos)) (houses (properties env ! nat pos)))
           \<le> money env ! nat p \<and>
         process_square v env p pos action cd cn =
           (env\<lparr>money := ((money env)[nat p := money env ! nat p -
                     min (money env ! nat p) (rent_due (rent (properties env ! nat pos)) (houses (properties env ! nat pos)))])
                   [nat (owner (properties env ! nat pos)) := money env ! nat (owner (properties env ! nat pos)) +
                     min (money env ! nat p) (rent_due (rent (properties env ! nat pos)) (houses (properties env ! nat pos)))]\<rparr>,
            0,
            - min (money env ! nat p) (rent_due (rent (properties env ! nat pos)) (houses (properties env ! nat pos))),
            min (money env ! nat p) (rent_due (rent (properties env ! nat pos)) (houses (properties env ! nat pos)))) \<and>
         money (fst (process_square v env p pos action cd cn)) ! nat p =
           money env ! nat p -
             min (money env ! nat p) (rent_due (rent (properties env ! nat pos)) (houses (properties env ! nat pos))) \<and>
         money (fst (process_square v env p pos action cd cn)) ! nat (owner (properties env ! nat pos)) =
           money env ! nat (owner (properties env ! nat pos)) +
             min (money env ! nat p) (rent_due (rent (properties env ! nat pos)) (houses (properties env ! nat pos)))"
proof -
  let ?pr = "properties env ! nat pos"
  let ?due = "rent_due (rent ?pr) (houses ?pr)"
  let ?paid = "min (money env ! nat p) ?due"
  note f = owned_square_facts [OF assms(1,4,5,6)]
  have t: "?due = rent ?pr * [1, 5, 15, 45, 80, 125] ! nat (houses ?pr)"
    using f by (simp add: rent_due_table)
  have ne: "nat (owner ?pr) \<noteq> nat p" using f assms(2,7) by auto
  have lp: "nat p < length (money env)" using assms(1,3) inv_player_lt [of env p] by (simp add: inv_lengths)
  have lo: "nat (owner ?pr) < length (money env)"
    using assms(1) f inv_player_lt [of env "owner ?pr"] by (simp add: inv_lengths)
  have eq: "process_square v env p pos action cd cn =
      (env\<lparr>money := ((money env)[nat p := money env ! nat p - ?paid])
                   [nat (owner ?pr) := money env ! nat (owner ?pr) + ?paid]\<rparr>, 0, - ?paid, ?paid)"
    using f assms(6,7) ne lp
    by (simp add: process_square_def pay_rent_def Let_def min_def)
  have m1: "money (fst (process_square v env p pos action cd cn)) ! nat p = money env ! nat p - ?paid"
    unfolding eq using ne lp by simp
  have m2: "money (fst (process_square v env p pos action cd cn)) ! nat (owner ?pr) =
      money env ! nat (owner ?pr) + ?paid"
    unfolding eq using ne lo by simp
  show ?thesis
    by (intro conjI t eq m1 m2 min.cobounded1)
qed









section \<open>Bankruptcy\<close>

lemma forfeit_fold_pointwise:
  assumes "distinct sq"
  shows "money (fold (\<lambda>i e. if owner (properties e ! i) = p
                  then e\<lparr>properties := (properties e)[i := (properties e ! i)\<lparr>owner := - 1, houses := 0\<rparr>]\<rparr>
                  else e) sq env) = money env \<and>
         env_done (fold (\<lambda>i e. if owner (properties e ! i) = p
                  then e\<lparr>properties := (properties e)[i := (properties e ! i)\<lparr>owner := - 1, houses := 0\<rparr>]\<rparr>
                  else e) sq env) = env_done env \<and>
         length (properties (fold (\<lambda>i e. if owner (properties e ! i) = p
                  then e\<lparr>properties := (properties e)[i := (properties e ! i)\<lparr>owner := - 1, houses := 0\<rparr>]\<rparr>
                  else e) sq env)) = length (properties env) \<and>
         (\<forall>j. properties (fold (\<lambda>i e. if owner (properties e ! i) = p
                  then e\<lparr>properties := (properties e)[i := (properties e ! i)\<lparr>owner := - 1, houses := 0\<rparr>]\<rparr>
                  else e) sq env) ! j =
           (if j \<in> set sq \<and> j < length (properties env) \<and> owner (properties env ! j) = p
            then (properties env ! j)\<lparr>owner := - 1, houses := 0\<rparr> else properties env ! j))"
  using assms
proof (induction sq arbitrary: env)
  case Nil
  then show ?case by simp
next
  case (Cons i rest)
  then show ?case by (auto simp add: nth_upd)
qed

lemma forfeit_pointwise:
  "money (forfeit_properties env p) = money env \<and>
   env_done (forfeit_properties env p) = env_done env \<and>
   (\<forall>j. properties (forfeit_properties env p) ! j =
      (if j < nat (board_size env) \<and> j < length (properties env) \<and> owner (properties env ! j) = p
       then (properties env ! j)\<lparr>owner := - 1, houses := 0\<rparr> else properties env ! j))"
  unfolding forfeit_properties_def
  using forfeit_fold_pointwise [of "[0..<nat (board_size env)]" p env] by simp






lemma sell_houses_keeps:
  "board_size (fst (sell_houses p sq env)) = board_size env \<and>
   env_done (fst (sell_houses p sq env)) = env_done env \<and>
   (\<forall>j. owner (properties (fst (sell_houses p sq env)) ! j) = owner (properties env ! j))"
proof (induction sq arbitrary: env)
  case Nil
  then show ?case by simp
next
  case (Cons i rest)
  show ?case using Cons.IH by (simp add: Let_def nth_upd)
qed

lemma sell_properties_keeps:
  "board_size (fst (sell_properties p sq env)) = board_size env \<and>
   env_done (fst (sell_properties p sq env)) = env_done env \<and>
   (\<forall>j. owner (properties (fst (sell_properties p sq env)) ! j) = owner (properties env ! j) \<or>
        owner (properties (fst (sell_properties p sq env)) ! j) = - 1)"
proof (induction sq arbitrary: env)
  case Nil
  then show ?case by simp
next
  case (Cons i rest)
  let ?e1 = "env\<lparr>money := (money env)[nat p := money env ! nat p + price (properties env ! i) sdiv 2],
               properties := (properties env)[i := (properties env ! i)\<lparr>owner := - 1\<rparr>]\<rparr>"
  have o: "owner (properties ?e1 ! j) = owner (properties env ! j) \<or> owner (properties ?e1 ! j) = - 1" for j
    by (simp add: nth_upd)
  show ?case using Cons.IH [of ?e1] Cons.IH [of env] o
    by (simp add: Let_def) metis
qed







lemma reachable_run_steps: "reachable env \<Longrightarrow> reachable (run_steps env tr)"
proof (induction tr arbitrary: env)
  case Nil
  then show ?case by (simp add: run_steps_def)
next
  case (Cons a tr)
  have "reachable (fst (step_monopoly_env env (fst a) (rng_of (snd a))))"
    unfolding step_monopoly_env_def using Cons.prems by (rule reachable.step)
  from Cons.IH [OF this] show ?case
    by (simp add: run_steps_def split_def)
qed

lemma jailed_debtor_env_eq: "jailed_debtor_env = jailed_debtor_state"
  by code_simp

lemma jailed_debtor_reachable: "reachable jailed_debtor_env"
proof -
  have c: "create_monopoly_env 2 200 200 = Some (the (create_monopoly_env 2 200 200))"
    by (simp add: create_monopoly_env_def MAX_PLAYERS_def)
  show ?thesis
    unfolding jailed_debtor_env_def by (rule reachable_run_steps, rule reachable.fresh, rule c)
qed




section \<open>The reward of a step\<close>

lemma jail_logic_Inr_facts:
  assumes "env_inv env" "0 \<le> p" "p < num_players env"
    and "jail_logic v env p action prev mb g = Inr (env1, crc0, fee0, g1)"
  shows "crc0 = money env1 ! nat p - money env ! nat p \<and> env_done env1 = env_done env \<and>
         properties env1 = properties env \<and> length (money env1) = length (money env)"
proof -
  have "nat p < length (money env)" using assms(1,3) inv_player_lt [of env p] by (simp add: inv_lengths)
  then show ?thesis using assms(4)
    by (auto simp add: jail_logic_def Let_def split_def split: if_splits)
qed

lemma roll_and_move_money:
  assumes "nat p < length (money env)" "roll_and_move env p prev d = (env2, l, c)"
  shows "c = money env2 ! nat p - money env ! nat p \<and> env_done env2 = env_done env \<and>
         properties env2 = properties env \<and> length (money env2) = length (money env)"
proof -
  have "snd (snd (roll_and_move env p prev d)) =
          money (fst (roll_and_move env p prev d)) ! nat p - money env ! nat p \<and>
        env_done (fst (roll_and_move env p prev d)) = env_done env \<and>
        properties (fst (roll_and_move env p prev d)) = properties env \<and>
        length (money (fst (roll_and_move env p prev d))) = length (money env)"
    using assms(1) by (simp add: roll_and_move_def Let_def)
  then show ?thesis unfolding assms(2) by simp
qed

lemma apply_effect_money:
  assumes "nat p < length (money env)"
  shows "snd (apply_effect c env p) = money (fst (apply_effect c env p)) ! nat p - money env ! nat p \<and>
         env_done (fst (apply_effect c env p)) = env_done env \<and>
         properties (fst (apply_effect c env p)) = properties env \<and>
         length (money (fst (apply_effect c env p))) = length (money env)"
  using assms
  by (cases c) (simp_all add: advance_to_go_def go_to_jail_def adjust_money_def Let_def)

lemma card_handling_money:
  assumes "nat p < length (money env)"
    and "card_handling Sequential env p l g = (env3, crc2, cn, cd, pos, g3)"
  shows "crc2 = money env3 ! nat p - money env ! nat p \<and> env_done env3 = env_done env \<and>
         properties env3 = properties env \<and> length (money env3) = length (money env)"
proof (cases "is_chance_position l \<or> is_chest_position l")
  case False
  then show ?thesis using assms(2) by (simp add: card_handling_def)
next
  case True
  then obtain c where "env3 = fst (apply_effect c env p)" "crc2 = snd (apply_effect c env p)"
    using assms(2) by (auto simp add: card_handling_def Let_def split_def split: if_splits)
  then show ?thesis using apply_effect_money [OF assms(1), of c] by simp
qed

lemma check_bankruptcy_penalty:
  assumes "check_bankruptcy env p = (env5, crc4)" "\<not> env_done env"
  shows "crc4 = (if env_done env5 then - 1000 else 0)"
proof -
  have k: "env_done (fst (sell_houses p sq env)) = env_done env"
    "env_done (fst (sell_properties p sq e)) = env_done e" for sq e
    using sell_houses_keeps [of p sq env] sell_properties_keeps [of p sq e] by simp_all
  have fd: "env_done (forfeit_properties (e\<lparr>env_done := True\<rparr>) p)" for e
    using forfeit_pointwise [of "e\<lparr>env_done := True\<rparr>" p] by simp
  show ?thesis using assms k fd
    by (auto simp add: check_bankruptcy_def Let_def split_def split: if_splits)
qed

lemma process_square_reward_proj:
  assumes "env_inv env" "0 \<le> p" "p < num_players env" "0 \<le> pos" "pos < 40"
  shows "fst (snd (process_square Sequential env p pos action cd cn))
           + fst (snd (snd (process_square Sequential env p pos action cd cn))) =
         money (fst (process_square Sequential env p pos action cd cn)) ! nat p - money env ! nat p
           + (if owner (properties env ! nat pos) = - 1 \<and>
                 owner (properties (fst (process_square Sequential env p pos action cd cn)) ! nat pos) = p
              then price (properties env ! nat pos) + 100 else 0)
           + (if houses (properties (fst (process_square Sequential env p pos action cd cn)) ! nat pos) =
                 houses (properties env ! nat pos) + 1
              then house_cost (properties env ! nat pos) else 0) \<and>
         env_done (fst (process_square Sequential env p pos action cd cn)) = env_done env"
proof -
  have lp: "nat p < length (money env)" using assms(1,3) inv_player_lt [of env p] by (simp add: inv_lengths)
  have lq: "nat pos < length (properties env)" using assms(1,4,5) by (simp add: inv_lengths)
  have sq: "square_ok (num_players env) (initialize_properties ! nat pos) (properties env ! nat pos)"
    using assms(1,4,5) by (simp add: inv_square)
  have pm: "p \<noteq> - 1" using assms(2) by simp
  show ?thesis
  proof (cases "owner (properties env ! nat pos) = - 1")
    case True
    then have h0: "houses (properties env ! nat pos) = 0" using sq by (simp add: square_ok_def)
    show ?thesis using True h0 lp lq pm
      by (auto simp add: process_square_def go_to_jail_def Let_def)
  next
    case False
    note owned = False
    note f = owned_square_facts [OF assms(1,4,5) owned]
    show ?thesis
    proof (cases "owner (properties env ! nat pos) = p")
      case False
      have eq: "process_square Sequential env p pos action cd cn =
        (env\<lparr>money := ((money env)[nat p := money env ! nat p -
                     min (money env ! nat p) (rent_due (rent (properties env ! nat pos)) (houses (properties env ! nat pos)))])
                   [nat (owner (properties env ! nat pos)) := money env ! nat (owner (properties env ! nat pos)) +
                     min (money env ! nat p) (rent_due (rent (properties env ! nat pos)) (houses (properties env ! nat pos)))]\<rparr>,
            0,
            - min (money env ! nat p) (rent_due (rent (properties env ! nat pos)) (houses (properties env ! nat pos))),
            min (money env ! nat p) (rent_due (rent (properties env ! nat pos)) (houses (properties env ! nat pos))))"
        using rent_payment_sequential [OF assms(1-5) owned False, of Sequential action cd cn] by simp
      have ne: "nat (owner (properties env ! nat pos)) \<noteq> nat p" using f assms(2) False by auto
      show ?thesis using owned False ne lp unfolding eq by simp
    next
      case True
      have bh: "process_square Sequential env p pos action cd cn = (buy_house env p pos action, 0, 0, 0)"
        using f owned True by (simp add: process_square_def)
      show ?thesis using owned True lp lq unfolding bh
        by (simp add: buy_house_def Let_def)
    qed
  qed
qed


lemma finalize_reward:
  "res_reward (fst (snd (finalize_step v env p a pp dt l mb csr crc fee cn g))) = csr + crc"
  by (simp add: finalize_step_def Let_def)

lemma normal_turn_reward:
  assumes "roll_and_move env1 p prev (int (g1 0 mod 6) + 1 + (int (g1 (Suc 0) mod 6) + 1)) = (env2, landed, csr1)"
    and "card_handling v env2 p landed (\<lambda>n. g1 (Suc (Suc n))) = (env3, crc2, cn, cd, pos, g3)"
    and "process_square v env3 p pos action cd cn = (env4, csr3, crc3, fee3)"
    and "check_bankruptcy env4 p = (env5, crc4)"
  shows "res_reward (fst (snd (normal_turn v env1 p action prev mb crc0 fee0 g1))) =
           csr1 + csr3 + (crc0 + crc2 + crc3 + crc4)"
  using assms unfolding normal_turn_def rand_def
  by (simp add: Let_def finalize_reward)

text \<open>
  Claim C1, amended. For a step on a non-terminal state that reaches the dice movement,
  the reward is the change of the acting player's cash from the step's start to the bankruptcy
  check (jail release fee, pass-GO credit, card, tax, rent, purchase), with the purchase
  taken out again and replaced by a bonus: a property bought counts +100 instead of
  its price, a house bought counts 0 instead of its cost; plus -1000 when the bankruptcy
  block ends the game. What liquidation brings in never enters the reward. For a turn spent
  held in jail the reward is -1000 if the cash is negative and 0 otherwise.\<close>

theorem step_reward:
  "(env_inv env \<and> \<not> env_done env \<and>
    jail_logic Sequential env (current_player env) action
       (positions env ! nat (current_player env)) (money env ! nat (current_player env)) g
      = Inr (env1, crc0, fee0, g1) \<and>
    roll_and_move env1 (current_player env) (positions env ! nat (current_player env))
       (int (g1 0 mod 6) + 1 + (int (g1 (Suc 0) mod 6) + 1)) = (env2, landed, csr1) \<and>
    card_handling Sequential env2 (current_player env) landed (\<lambda>n. g1 (Suc (Suc n)))
      = (env3, crc2, cn, cd, pos, g3) \<and>
    process_square Sequential env3 (current_player env) pos action cd cn = (env4, csr3, crc3, fee3) \<and>
    check_bankruptcy env4 (current_player env) = (env5, crc4) \<longrightarrow>
      res_reward (fst (snd (step_monopoly_env env action g))) =
        (money env4 ! nat (current_player env) - money env ! nat (current_player env))
        + (if owner (properties env3 ! nat pos) = - 1 \<and> owner (properties env4 ! nat pos) = current_player env
           then price (properties env3 ! nat pos) + 100 else 0)
        + (if houses (properties env4 ! nat pos) = houses (properties env3 ! nat pos) + 1
           then house_cost (properties env3 ! nat pos) else 0)
        + (if env_done env5 then - 1000 else 0)) \<and>
   (env_inv jenv \<and> \<not> env_done jenv \<and> in_jail jenv ! nat (current_player jenv) \<and>
    h 0 mod 6 \<noteq> h 1 mod 6 \<and> jail_counters jenv ! nat (current_player jenv) + 1 < jail_turns jenv \<longrightarrow>
      res_reward (fst (snd (step_monopoly_env jenv action h))) =
        (if money jenv ! nat (current_player jenv) < 0 then - 1000 else 0))"
proof (intro conjI impI)
  let ?p = "current_player env"
  let ?prev = "positions env ! nat ?p"
  assume H: "env_inv env \<and> \<not> env_done env \<and>
    jail_logic Sequential env ?p action ?prev (money env ! nat ?p) g = Inr (env1, crc0, fee0, g1) \<and>
    roll_and_move env1 ?p ?prev (int (g1 0 mod 6) + 1 + (int (g1 (Suc 0) mod 6) + 1)) = (env2, landed, csr1) \<and>
    card_handling Sequential env2 ?p landed (\<lambda>n. g1 (Suc (Suc n))) = (env3, crc2, cn, cd, pos, g3) \<and>
    process_square Sequential env3 ?p pos action cd cn = (env4, csr3, crc3, fee3) \<and>
    check_bankruptcy env4 ?p = (env5, crc4)"
  then have inv: "env_inv env" and nd: "\<not> env_done env"
    and J: "jail_logic Sequential env ?p action ?prev (money env ! nat ?p) g = Inr (env1, crc0, fee0, g1)"
    and M: "roll_and_move env1 ?p ?prev (int (g1 0 mod 6) + 1 + (int (g1 (Suc 0) mod 6) + 1)) = (env2, landed, csr1)"
    and C: "card_handling Sequential env2 ?p landed (\<lambda>n. g1 (Suc (Suc n))) = (env3, crc2, cn, cd, pos, g3)"
    and Q: "process_square Sequential env3 ?p pos action cd cn = (env4, csr3, crc3, fee3)"
    and B: "check_bankruptcy env4 ?p = (env5, crc4)"
    by simp_all
  note cp = inv_current_player [OF inv]
  have p0: "0 \<le> ?p" and pn: "?p < num_players env" using cp by simp_all
  have prev0: "0 \<le> ?prev" using inv_position [OF inv p0 pn] by simp
  have d0: "0 \<le> int (g1 0 mod 6) + 1 + (int (g1 (Suc 0) mod 6) + 1)" by simp
  note j1 = jail_logic_Inr_facts [OF inv p0 pn J]
  note j2 = inv_jail_logic_Inr [OF inv J]
  have i1: "env_inv env1" using j2 by simp
  have n1: "?p < num_players env1" using j2 pn by simp
  have l1: "nat ?p < length (money env1)" using i1 cp by (simp add: inv_lengths)
  note m1 = roll_and_move_money [OF l1 M]
  have i2: "env_inv env2" using inv_roll_and_move [OF i1 prev0 d0, of ?p] M by simp
  have n2: "?p < num_players env2"
    using num_players_roll_and_move [of env1 ?p ?prev "int (g1 0 mod 6) + 1 + (int (g1 (Suc 0) mod 6) + 1)"] M n1
    by simp
  have la: "0 \<le> landed \<and> landed < 40"
    using roll_and_move_landed [OF _ prev0 d0, of env1 ?p] inv_config [OF i1] M by simp
  have l2: "nat ?p < length (money env2)" using m1 l1 by simp
  note c1 = card_handling_money [OF l2 C]
  have i3: "env_inv env3"
    using inv_card_handling [OF i2, of Sequential ?p landed "\<lambda>n. g1 (Suc (Suc n))"] C by simp
  have n3: "?p < num_players env3"
    using num_players_card_handling [of Sequential env2 ?p landed "\<lambda>n. g1 (Suc (Suc n))"] C n2 by simp
  have ps: "0 \<le> pos \<and> pos < 40"
    using card_handling_pos [OF i2 _ _ p0 n2, of landed Sequential "\<lambda>n. g1 (Suc (Suc n))"] la C by simp
  have q1: "csr3 + crc3 = money env4 ! nat ?p - money env3 ! nat ?p
           + (if owner (properties env3 ! nat pos) = - 1 \<and> owner (properties env4 ! nat pos) = ?p
              then price (properties env3 ! nat pos) + 100 else 0)
           + (if houses (properties env4 ! nat pos) = houses (properties env3 ! nat pos) + 1
              then house_cost (properties env3 ! nat pos) else 0)"
    and q2: "env_done env4 = env_done env3"
    using process_square_reward_proj [OF i3 p0 n3, of pos action cd cn] ps Q by simp_all
  have nd4: "\<not> env_done env4" using q2 c1 m1 j1 nd by simp
  note b1 = check_bankruptcy_penalty [OF B nd4]
  have st: "step_monopoly_env env action g =
      normal_turn Sequential env1 ?p action ?prev (money env ! nat ?p) crc0 fee0 g1"
    using nd J by (simp add: step_monopoly_env_def step_monopoly_env_in_def Let_def)
  have "res_reward (fst (snd (step_monopoly_env env action g))) = csr1 + csr3 + (crc0 + crc2 + crc3 + crc4)"
    unfolding st using M C Q B by (rule normal_turn_reward)
  also have "\<dots> = (money env4 ! nat ?p - money env ! nat ?p)
        + (if owner (properties env3 ! nat pos) = - 1 \<and> owner (properties env4 ! nat pos) = ?p
           then price (properties env3 ! nat pos) + 100 else 0)
        + (if houses (properties env4 ! nat pos) = houses (properties env3 ! nat pos) + 1
           then house_cost (properties env3 ! nat pos) else 0)
        + (if env_done env5 then - 1000 else 0)"
    using j1 m1 c1 q1 b1 by linarith
  finally show "res_reward (fst (snd (step_monopoly_env env action g))) =
        (money env4 ! nat ?p - money env ! nat ?p)
        + (if owner (properties env3 ! nat pos) = - 1 \<and> owner (properties env4 ! nat pos) = ?p
           then price (properties env3 ! nat pos) + 100 else 0)
        + (if houses (properties env4 ! nat pos) = houses (properties env3 ! nat pos) + 1
           then house_cost (properties env3 ! nat pos) else 0)
        + (if env_done env5 then - 1000 else 0)" .
next
  let ?p = "current_player jenv"
  assume H: "env_inv jenv \<and> \<not> env_done jenv \<and> in_jail jenv ! nat ?p \<and>
    h 0 mod 6 \<noteq> h 1 mod 6 \<and> jail_counters jenv ! nat ?p + 1 < jail_turns jenv"
  then have len: "nat ?p < length (jail_counters jenv)"
    using inv_current_player [of jenv] by (simp add: inv_lengths)
  show "res_reward (fst (snd (step_monopoly_env jenv action h))) =
        (if money jenv ! nat ?p < 0 then - 1000 else 0)"
    using H len
    by (simp add: step_monopoly_env_def step_monopoly_env_in_def jail_logic_def jail_turn_ends_def
        Let_def split_def rand_def)
qed

theorem step_reward_witness:
  "env_inv fresh_env \<and> \<not> env_done fresh_env \<and>
   res_reward (fst (snd (step_monopoly_env fresh_env 1 (rng_of [0, 1])))) = 100 \<and>
   env_inv jailed_debtor_env \<and> \<not> env_done jailed_debtor_env \<and>
   res_reward (fst (snd (step_monopoly_env jailed_debtor_env 1 (rng_of [0, 1])))) = - 1000"
proof -
  let ?g = "rng_of [0, 1]"
  let ?d = "int (?g 0 mod 6) + 1 + (int (?g (Suc 0) mod 6) + 1)"
  let ?cp = "current_player fresh_env"
  let ?prev = "positions fresh_env ! nat ?cp"
  let ?R = "roll_and_move fresh_env ?cp ?prev ?d"
  let ?C = "card_handling Sequential (fst ?R) ?cp (fst (snd ?R)) (\<lambda>n. ?g (Suc (Suc n)))"
  let ?pos = "fst (snd (snd (snd (snd ?C))))"
  let ?cd = "fst (snd (snd (snd ?C)))"
  let ?cn = "fst (snd (snd ?C))"
  let ?Q = "process_square Sequential (fst ?C) ?cp ?pos 1 ?cd ?cn"
  let ?B = "check_bankruptcy (fst ?Q) ?cp"
  have i: "env_inv fresh_env" "\<not> env_done fresh_env" "\<not> in_jail fresh_env ! nat ?cp"
    by code_simp+
  have J: "jail_logic Sequential fresh_env ?cp 1 ?prev (money fresh_env ! nat ?cp) ?g = Inr (fresh_env, 0, 0, ?g)"
    using i(3) by (simp add: jail_logic_def)
  have H: "env_inv fresh_env \<and> \<not> env_done fresh_env \<and>
    jail_logic Sequential fresh_env ?cp 1 ?prev (money fresh_env ! nat ?cp) ?g = Inr (fresh_env, 0, 0, ?g) \<and>
    ?R = (fst ?R, fst (snd ?R), snd (snd ?R)) \<and>
    ?C = (fst ?C, fst (snd ?C), ?cn, ?cd, ?pos, snd (snd (snd (snd (snd ?C))))) \<and>
    ?Q = (fst ?Q, fst (snd ?Q), fst (snd (snd ?Q)), snd (snd (snd ?Q))) \<and>
    ?B = (fst ?B, snd ?B)"
    using i(1,2) J by simp
  have i2: "env_inv jailed_debtor_env"
    using jailed_debtor_reachable by (rule reachable_inv)
  have H2': "\<not> env_done jailed_debtor_env \<and>
    in_jail jailed_debtor_env ! nat (current_player jailed_debtor_env) \<and>
    rng_of [0, 1] 0 mod 6 \<noteq> rng_of [0, 1] 1 mod 6 \<and>
    jail_counters jailed_debtor_env ! nat (current_player jailed_debtor_env) + 1 < jail_turns jailed_debtor_env"
    unfolding jailed_debtor_env_eq by (intro conjI; code_simp)
  have H2: "env_inv jailed_debtor_env \<and> \<not> env_done jailed_debtor_env \<and>
    in_jail jailed_debtor_env ! nat (current_player jailed_debtor_env) \<and>
    rng_of [0, 1] 0 mod 6 \<noteq> rng_of [0, 1] 1 mod 6 \<and>
    jail_counters jailed_debtor_env ! nat (current_player jailed_debtor_env) + 1 < jail_turns jailed_debtor_env"
    using i2 H2' by (rule conjI)
  have neg: "money jailed_debtor_env ! nat (current_player jailed_debtor_env) < 0"
    unfolding jailed_debtor_env_eq by code_simp
  note t = step_reward [of fresh_env 1 ?g fresh_env 0 0 ?g "fst ?R" "fst (snd ?R)" "snd (snd ?R)"
      "fst ?C" "fst (snd ?C)" ?cn ?cd ?pos "snd (snd (snd (snd (snd ?C))))"
      "fst ?Q" "fst (snd ?Q)" "fst (snd (snd ?Q))" "snd (snd (snd ?Q))" "fst ?B" "snd ?B"
      jailed_debtor_env ?g]
  note t1 = t [THEN conjunct1, rule_format, OF H]
  note t2 = t [THEN conjunct2, rule_format, OF H2]
  have v: "(money (fst ?Q) ! nat ?cp - money fresh_env ! nat ?cp)
        + (if owner (properties (fst ?C) ! nat ?pos) = - 1 \<and> owner (properties (fst ?Q) ! nat ?pos) = ?cp
           then price (properties (fst ?C) ! nat ?pos) + 100 else 0)
        + (if houses (properties (fst ?Q) ! nat ?pos) = houses (properties (fst ?C) ! nat ?pos) + 1
           then house_cost (properties (fst ?C) ! nat ?pos) else 0)
        + (if env_done (fst ?B) then - 1000 else 0) = 100"
    by code_simp
  have r1: "res_reward (fst (snd (step_monopoly_env fresh_env 1 ?g))) = 100"
    using t1 v by (rule trans)
  have r2: "res_reward (fst (snd (step_monopoly_env jailed_debtor_env 1 ?g))) = - 1000"
    using t2 neg by simp
  show ?thesis using i(1,2) r1 i2 H2' r2 by simp
qed

text \<open>
  Claim C1, as stated: the reward is the sum of the pass-GO, card, tax, rent and
  house-purchase cash changes, plus the penalty. In the first step below the player moves from
  GO to square 3 without passing GO, draws no card, pays no tax, no rent and buys no house, is
  not bankrupt, and buys the square for 60: the reward is 100. In the second the player buys
  one house for 50 and nothing else happens: the reward is 0, not -50.\<close>

theorem reward_is_not_the_cash_change:
  "\<not> env_done fresh_env \<and>
   position_before (res_log (fst (snd (step_monopoly_env fresh_env 1 (rng_of [0, 1]))))) = 0 \<and>
   landed_on_position (res_log (fst (snd (step_monopoly_env fresh_env 1 (rng_of [0, 1]))))) = 3 \<and>
   log_card_drawn (res_log (fst (snd (step_monopoly_env fresh_env 1 (rng_of [0, 1]))))) = [] \<and>
   fee_paid (res_log (fst (snd (step_monopoly_env fresh_env 1 (rng_of [0, 1]))))) = 0 \<and>
   \<not> res_done (fst (snd (step_monopoly_env fresh_env 1 (rng_of [0, 1])))) \<and>
   money (fst (step_monopoly_env fresh_env 1 (rng_of [0, 1]))) ! 0 - money fresh_env ! 0 = - 60 \<and>
   res_reward (fst (snd (step_monopoly_env fresh_env 1 (rng_of [0, 1])))) = 100 \<and>
   \<not> env_done own_square_env \<and>
   houses (properties own_square_env ! 3) = 0 \<and>
   houses (properties (fst (step_monopoly_env own_square_env 1 (rng_of [0, 1]))) ! 3) = 1 \<and>
   money (fst (step_monopoly_env own_square_env 1 (rng_of [0, 1]))) ! 0 - money own_square_env ! 0 = - 50 \<and>
   res_reward (fst (snd (step_monopoly_env own_square_env 1 (rng_of [0, 1])))) = 0"
  by (intro conjI; code_simp)

end
